theory Spec2Isabelle
  imports Complex_Main "HOL-Library.Word" "HOL-Library.Multiset" "HOL-Library.Sublist"
begin

section \<open>C strings and the libc functions the codec calls\<close>

text \<open>
  A C string is the list of its bytes before the terminating NUL; \<open>char\<close> is a byte.
  A \<open>char *\<close> that may be NULL is a \<open>string option\<close>, \<open>None\<close> being NULL.
  \<open>uc c\<close> is the cast \<open>(unsigned char)c\<close>. The character classes are those of the
  "C" locale.
\<close>

definition uc :: "char \<Rightarrow> nat" where
  "uc c = of_char c"

definition isdigit :: "char \<Rightarrow> bool" where
  "isdigit c = (48 \<le> uc c \<and> uc c \<le> 57)"

definition isalnum :: "char \<Rightarrow> bool" where
  "isalnum c = (isdigit c \<or> (65 \<le> uc c \<and> uc c \<le> 90) \<or> (97 \<le> uc c \<and> uc c \<le> 122))"

definition isspace :: "char \<Rightarrow> bool" where
  "isspace c = (uc c = 32 \<or> (9 \<le> uc c \<and> uc c \<le> 13))"

text \<open>\<open>strcmp\<close>: bytes are compared as unsigned char; only the sign of the result is
  specified by C, the model returns -1, 0 or 1.\<close>

fun strcmp :: "string \<Rightarrow> string \<Rightarrow> int" where
  "strcmp [] [] = 0"
| "strcmp [] (y # ys) = - 1"
| "strcmp (x # xs) [] = 1"
| "strcmp (x # xs) (y # ys) =
     (if x = y then strcmp xs ys else if uc x < uc y then - 1 else 1)"

text \<open>\<open>qsort\<close> with a comparator. C leaves the order of elements that compare equal
  unspecified; the model is the insertion sort that keeps them in their input order.\<close>

fun qsort_insert :: "('a \<Rightarrow> 'a \<Rightarrow> int) \<Rightarrow> 'a \<Rightarrow> 'a list \<Rightarrow> 'a list" where
  "qsort_insert cmp x [] = [x]"
| "qsort_insert cmp x (y # ys) =
     (if cmp x y \<le> 0 then x # y # ys else y # qsort_insert cmp x ys)"

definition qsort :: "('a \<Rightarrow> 'a \<Rightarrow> int) \<Rightarrow> 'a list \<Rightarrow> 'a list" where
  "qsort cmp xs = foldr (qsort_insert cmp) xs []"

text \<open>Decimal output of \<open>%zu\<close> and \<open>%ld\<close>.\<close>

definition digit_char :: "nat \<Rightarrow> char" where
  "digit_char n = ''0123456789'' ! n"

fun show_nat :: "nat \<Rightarrow> string" where
  "show_nat n = (if n < 10 then [digit_char n] else show_nat (n div 10) @ [digit_char (n mod 10)])"

declare show_nat.simps [simp del]

definition show_long :: "int \<Rightarrow> string" where
  "show_long i = (if i < 0 then CHR ''-'' # show_nat (nat (- i)) else show_nat (nat i))"

text \<open>C's integer division truncates towards zero.\<close>

definition c_div :: "int \<Rightarrow> int \<Rightarrow> int" where
  "c_div a b = sgn a * sgn b * (\<bar>a\<bar> div \<bar>b\<bar>)"

subsection \<open>Doubles\<close>

text \<open>
  A \<open>double\<close> is its IEEE-754 binary64 bit pattern: sign bit, 11-bit biased exponent,
  52-bit fraction. \<open>dbl_val\<close> is the rational a finite pattern denotes. The comparisons,
  \<open>floor\<close>, \<open>fabs\<close> and the cast to \<open>long\<close> that the codec applies are exact
  operations and are defined on that rational.
\<close>

type_synonym double = "64 word"

definition dbl_sign :: "double \<Rightarrow> bool" where
  "dbl_sign d = bit d 63"

definition dbl_exp :: "double \<Rightarrow> nat" where
  "dbl_exp d = unat (take_bit 11 (drop_bit 52 d))"

definition dbl_frac :: "double \<Rightarrow> nat" where
  "dbl_frac d = unat (take_bit 52 d)"

definition dbl_isnan :: "double \<Rightarrow> bool" where
  "dbl_isnan d = (dbl_exp d = 2047 \<and> dbl_frac d \<noteq> 0)"

definition dbl_isinf :: "double \<Rightarrow> bool" where
  "dbl_isinf d = (dbl_exp d = 2047 \<and> dbl_frac d = 0)"

definition dbl_finite :: "double \<Rightarrow> bool" where
  "dbl_finite d = (dbl_exp d \<noteq> 2047)"

definition dbl_val :: "double \<Rightarrow> rat" where
  "dbl_val d =
     (if dbl_sign d then - 1 else 1) *
     (if dbl_exp d = 0 then of_nat (dbl_frac d) * 2 powi (- 1074)
      else of_nat (2 ^ 52 + dbl_frac d) * 2 powi (int (dbl_exp d) - 1075))"

text \<open>\<open>f == 0.0\<close>: true of both zeros.\<close>

definition dbl_eq_zero :: "double \<Rightarrow> bool" where
  "dbl_eq_zero d = (dbl_exp d = 0 \<and> dbl_frac d = 0)"

text \<open>\<open>f == floor(f)\<close>: an infinity is its own floor, a NaN equals nothing.\<close>

definition dbl_eq_floor :: "double \<Rightarrow> bool" where
  "dbl_eq_floor d =
     (if dbl_isnan d then False else if dbl_isinf d then True
      else dbl_val d = of_int \<lfloor>dbl_val d\<rfloor>)"

text \<open>\<open>fabs(f) < 1e15\<close>: the constant is the double \<open>10^15\<close>, which is exact.\<close>

definition dbl_fabs_lt_1e15 :: "double \<Rightarrow> bool" where
  "dbl_fabs_lt_1e15 d = (dbl_finite d \<and> \<bar>dbl_val d\<bar> < 10 ^ 15)"

text \<open>\<open>(long)f\<close> discards the fraction; the codec casts only when
  \<open>fabs(f) < 1e15\<close>, so the result is in range.\<close>

definition dbl_to_long :: "double \<Rightarrow> int" where
  "dbl_to_long d = (if dbl_val d < 0 then - \<lfloor>- dbl_val d\<rfloor> else \<lfloor>dbl_val d\<rfloor>)"

subsection \<open>What the C library supplies\<close>

text \<open>
  Three results depend on the C library, not on code of the codec, and are taken as
  parameters:
  \<^item> \<open>fmt_g15 f\<close>: the text \<open>snprintf\<close> writes for \<open>"%.15g"\<close>;
  \<^item> \<open>fmt_time t\<close>: the text \<open>strftime\<close> writes for \<open>"%Y-%m-%dT%H:%M:%SZ"\<close> from
    \<open>gmtime\<close> of \<open>t\<close> seconds;
  \<^item> \<open>strtod\<close>, for the JSON parser: the double read at the start of the text and
    the number of characters consumed.
\<close>

record host =
  fmt_g15 :: "double \<Rightarrow> string"
  fmt_time :: "int \<Rightarrow> string"
  strtod :: "string \<Rightarrow> double \<times> nat"

section \<open>The value model (glyph.h)\<close>

datatype glyph_type_t =
    GLYPH_NULL | GLYPH_BOOL | GLYPH_INT | GLYPH_FLOAT | GLYPH_STR | GLYPH_BYTES
  | GLYPH_TIME | GLYPH_ID | GLYPH_LIST | GLYPH_MAP | GLYPH_STRUCT | GLYPH_SUM

datatype glyph_null_style_t = GLYPH_NULL_UNDERSCORE | GLYPH_NULL_SYMBOL

text \<open>
  \<open>struct glyph_value\<close>: the tag and the member of the union it selects. A
  \<open>glyph_value_t *\<close> that may be NULL is a \<open>glyph_value option\<close>. A map entry is the
  pair of its key and its value; the items of a list and the values of entries are never
  NULL, since \<open>glyph_list_append\<close>, \<open>glyph_map_set\<close> and \<open>glyph_struct_set\<close> refuse NULL.
\<close>

datatype glyph_value =
    GNull
  | GBool bool
  | GInt "64 word"
  | GFloat double
  | GStr "string option"
  | GBytes "8 word list"
  | GTime "64 word"
  | GId string "string option"
  | GList "glyph_value list"
  | GMap "(string \<times> glyph_value) list"
  | GStruct "string option" "(string \<times> glyph_value) list"
  | GSum "string option" "glyph_value option"

type_synonym glyph_map_entry_t = "string \<times> glyph_value"

record glyph_canon_opts_t =
  auto_tabular :: bool
  min_rows :: nat
  max_cols :: nat
  allow_missing :: bool
  null_style :: glyph_null_style_t

subsection \<open>Constructors and mutators\<close>

text \<open>Allocation is assumed to succeed. A mutator returns the container as it is after
  the call.\<close>

definition strdup_safe :: "string option \<Rightarrow> string option" where
  "strdup_safe s = s"

definition glyph_null :: "glyph_value option" where
  "glyph_null = Some GNull"

definition glyph_bool :: "bool \<Rightarrow> glyph_value option" where
  "glyph_bool val = Some (GBool val)"

definition glyph_int :: "64 word \<Rightarrow> glyph_value option" where
  "glyph_int val = Some (GInt val)"

definition glyph_float :: "double \<Rightarrow> glyph_value option" where
  "glyph_float val = Some (GFloat val)"

definition glyph_str :: "string option \<Rightarrow> glyph_value option" where
  "glyph_str val = Some (GStr (strdup_safe val))"

definition glyph_id :: "string option \<Rightarrow> string option \<Rightarrow> glyph_value option" where
  "glyph_id pfx val =
     Some (GId (case pfx of None \<Rightarrow> [] | Some p \<Rightarrow> p) (strdup_safe val))"

definition glyph_list_new :: "glyph_value option" where
  "glyph_list_new = Some (GList [])"

definition glyph_map_new :: "glyph_value option" where
  "glyph_map_new = Some (GMap [])"

definition glyph_struct_new :: "string option \<Rightarrow> glyph_value option" where
  "glyph_struct_new type_name = Some (GStruct (strdup_safe type_name) [])"

definition glyph_sum :: "string option \<Rightarrow> glyph_value option \<Rightarrow> glyph_value option" where
  "glyph_sum tag val = Some (GSum (strdup_safe tag) val)"

fun glyph_list_append :: "glyph_value option \<Rightarrow> glyph_value option \<Rightarrow> glyph_value option" where
  "glyph_list_append (Some (GList items)) (Some item) = Some (GList (items @ [item]))"
| "glyph_list_append list item = list"

fun glyph_map_set ::
  "glyph_value option \<Rightarrow> string option \<Rightarrow> glyph_value option \<Rightarrow> glyph_value option" where
  "glyph_map_set (Some (GMap entries)) (Some key) (Some val) = Some (GMap (entries @ [(key, val)]))"
| "glyph_map_set m key val = m"

fun glyph_struct_set ::
  "glyph_value option \<Rightarrow> string option \<Rightarrow> glyph_value option \<Rightarrow> glyph_value option" where
  "glyph_struct_set (Some (GStruct tn flds)) (Some key) (Some val) =
     Some (GStruct tn (flds @ [(key, val)]))"
| "glyph_struct_set s key val = s"

subsection \<open>Accessors\<close>

fun type_of_value :: "glyph_value \<Rightarrow> glyph_type_t" where
  "type_of_value GNull = GLYPH_NULL"
| "type_of_value (GBool _) = GLYPH_BOOL"
| "type_of_value (GInt _) = GLYPH_INT"
| "type_of_value (GFloat _) = GLYPH_FLOAT"
| "type_of_value (GStr _) = GLYPH_STR"
| "type_of_value (GBytes _) = GLYPH_BYTES"
| "type_of_value (GTime _) = GLYPH_TIME"
| "type_of_value (GId _ _) = GLYPH_ID"
| "type_of_value (GList _) = GLYPH_LIST"
| "type_of_value (GMap _) = GLYPH_MAP"
| "type_of_value (GStruct _ _) = GLYPH_STRUCT"
| "type_of_value (GSum _ _) = GLYPH_SUM"

definition glyph_get_type :: "glyph_value option \<Rightarrow> glyph_type_t" where
  "glyph_get_type v = (case v of None \<Rightarrow> GLYPH_NULL | Some x \<Rightarrow> type_of_value x)"

subsection \<open>Canonicalization options\<close>

definition glyph_canon_opts_default :: glyph_canon_opts_t where
  "glyph_canon_opts_default =
     \<lparr> auto_tabular = True, min_rows = 3, max_cols = 64, allow_missing = True,
       null_style = GLYPH_NULL_UNDERSCORE \<rparr>"

definition glyph_canon_opts_llm :: glyph_canon_opts_t where
  "glyph_canon_opts_llm = glyph_canon_opts_default"

definition glyph_canon_opts_pretty :: glyph_canon_opts_t where
  "glyph_canon_opts_pretty = glyph_canon_opts_default \<lparr> null_style := GLYPH_NULL_SYMBOL \<rparr>"


section \<open>The canonical writer (glyph.c)\<close>

definition canon_null :: "glyph_null_style_t \<Rightarrow> string" where
  "canon_null style =
     (if style = GLYPH_NULL_SYMBOL then [CHR 0xE2, CHR 0x88, CHR 0x85] else ''_'')"

text \<open>\<open>is_bare_safe\<close>. Its test for a NULL argument guards a pointer no caller passes:
  the argument is a map key, a column name or \<open>str_val\<close> replaced by \<open>""\<close> when NULL.\<close>

definition is_bare_safe :: "string \<Rightarrow> bool" where
  "is_bare_safe s =
     (case s of [] \<Rightarrow> False
      | first # _ \<Rightarrow>
          if isdigit first \<or> first = CHR 0x22 \<or> first = CHR 0x27 \<or> first = CHR ''-'' then False
          else if strcmp s ''t'' = 0 \<or> strcmp s ''f'' = 0 \<or> strcmp s ''true'' = 0 \<or>
                  strcmp s ''false'' = 0 \<or> strcmp s ''null'' = 0 \<or> strcmp s ''_'' = 0 then False
          else list_all (\<lambda>c. isalnum c \<or> c = CHR ''_'' \<or> c = CHR ''-'' \<or> c = CHR ''.'' \<or>
                              c = CHR ''/'' \<or> c = CHR ''@'' \<or> c = CHR '':'' \<or> uc c > 127) s)"

definition is_ref_bare_safe :: "string option \<Rightarrow> bool" where
  "is_ref_bare_safe s =
     (case s of None \<Rightarrow> False | Some [] \<Rightarrow> False
      | Some t \<Rightarrow> list_all (\<lambda>c. isalnum c \<or> c = CHR ''_'' \<or> c = CHR ''-'' \<or> c = CHR ''.'' \<or> uc c > 127) t)"

definition hex_digit :: "nat \<Rightarrow> char" where
  "hex_digit n = ''0123456789abcdef'' ! n"

text \<open>One character of \<open>write_quoted_string\<close>; \<open>"\\u%04x"\<close> of a byte below 0x20.\<close>

definition quoted_char :: "char \<Rightarrow> string" where
  "quoted_char c =
     (if c = CHR 0x5C then [CHR 0x5C, CHR 0x5C]
      else if c = CHR 0x22 then [CHR 0x5C, CHR 0x22]
      else if c = CHR 0x0A then [CHR 0x5C, CHR ''n'']
      else if c = CHR 0x0D then [CHR 0x5C, CHR ''r'']
      else if c = CHR 0x09 then [CHR 0x5C, CHR ''t'']
      else if uc c < 0x20 then
        [CHR 0x5C, CHR ''u'', CHR ''0'', CHR ''0'', hex_digit (uc c div 16), hex_digit (uc c mod 16)]
      else [c])"

definition write_quoted_string :: "string \<Rightarrow> string" where
  "write_quoted_string s = [CHR 0x22] @ concat (map quoted_char s) @ [CHR 0x22]"

definition write_canon_string :: "string \<Rightarrow> string" where
  "write_canon_string s = (if is_bare_safe s then s else write_quoted_string s)"

definition compare_entries :: "glyph_map_entry_t \<Rightarrow> glyph_map_entry_t \<Rightarrow> int" where
  "compare_entries ea eb = strcmp (fst ea) (fst eb)"

text \<open>The loops that write items separated by one space.\<close>

fun join_sp :: "string list \<Rightarrow> string" where
  "join_sp [] = []"
| "join_sp [x] = x"
| "join_sp (x # y # ys) = x @ '' '' @ join_sp (y # ys)"

text \<open>\<open>write_canon_map\<close>; \<open>wr\<close> stands for the forward-declared \<open>write_canon_value\<close>,
  applied to a child at its position (see the column layout below): the entry written
  \<open>i\<close>-th is child \<open>i\<close>.\<close>

definition write_canon_map ::
  "(nat list \<Rightarrow> glyph_value \<Rightarrow> string) \<Rightarrow> glyph_map_entry_t list \<Rightarrow> string" where
  "write_canon_map wr entries =
     ''{'' @ join_sp (map (\<lambda>(i, e). write_canon_string (fst e) @ ''='' @ wr [i] (snd e))
                         (enumerate 0 (qsort compare_entries entries))) @ ''}''"

text \<open>The entries of a Map or Struct item; for any other item \<open>entry_count\<close> stays 0.\<close>

fun item_entries :: "glyph_value \<Rightarrow> glyph_map_entry_t list option" where
  "item_entries (GMap entries) = Some entries"
| "item_entries (GStruct tn flds) = Some flds"
| "item_entries _ = None"

definition entries_or_none :: "glyph_value \<Rightarrow> glyph_map_entry_t list" where
  "entries_or_none item = (case item_entries item of None \<Rightarrow> [] | Some es \<Rightarrow> es)"

definition key_found :: "string \<Rightarrow> string list \<Rightarrow> bool" where
  "key_found key all_keys = list_ex (\<lambda>k. strcmp k key = 0) all_keys"

fun collect_entry_keys :: "glyph_map_entry_t list \<Rightarrow> string list \<Rightarrow> string list" where
  "collect_entry_keys [] all_keys = all_keys"
| "collect_entry_keys (e # es) all_keys =
     collect_entry_keys es (if key_found (fst e) all_keys then all_keys else all_keys @ [fst e])"

fun collect_all_keys :: "glyph_value list \<Rightarrow> string list \<Rightarrow> string list option" where
  "collect_all_keys [] all_keys = Some all_keys"
| "collect_all_keys (item # items) all_keys =
     (case item_entries item of
        None \<Rightarrow> None
      | Some entries \<Rightarrow> collect_all_keys items (collect_entry_keys entries all_keys))"

definition entry_has_key :: "string \<Rightarrow> glyph_value \<Rightarrow> bool" where
  "entry_has_key key item = list_ex (\<lambda>e. strcmp (fst e) key = 0) (entries_or_none item)"

definition in_all :: "glyph_value list \<Rightarrow> string \<Rightarrow> bool" where
  "in_all items key = list_all (entry_has_key key) items"

definition common_count :: "glyph_value list \<Rightarrow> string list \<Rightarrow> nat" where
  "common_count items all_keys = length (filter (in_all items) all_keys)"

text \<open>
  The order of the columns. \<open>check_homogeneous\<close> ends with
  \<open>qsort(all_keys, all_keys_count, sizeof(char *), strcmp)\<close>, \<open>strcmp\<close> being cast to the
  comparator type. \<open>qsort\<close> hands its comparator the addresses of two array slots, so the
  bytes \<open>strcmp\<close> compares are those of the pointers stored there, not those of the names:
  the columns end up arranged by the addresses \<open>strdup_safe\<close> got from \<open>malloc\<close> for the
  copies of the names. These addresses are not a function of the value: they differ from
  one call of the canonicalizer to the next (each call frees the copies it made) and from
  one list to another within a call.

  The model takes them from a \<^emph>\<open>column layout\<close>, which every call of the canonicalizer is
  given anew: for the list at a position of the value tree (the position being the path of
  child indices from the value canonicalized) and a column name of that list, it is the
  place of the pointer to the copy of the name among the pointers of that list, in the order
  of their bytes. Nothing is assumed of a layout, and two calls, also on the same value,
  have two layouts. \<open>sub_layout A q\<close> is the layout \<open>A\<close> seen from the child at \<open>q\<close>;
  \<open>compare_slots\<close> is what \<open>strcmp\<close> returns on the slots of two names, \<open>place\<close> being the
  layout at the list that \<open>check_homogeneous\<close> inspects.
\<close>

type_synonym col_layout = "nat list \<Rightarrow> string \<Rightarrow> nat"

definition sub_layout :: "col_layout \<Rightarrow> nat list \<Rightarrow> col_layout" where
  "sub_layout A q = (\<lambda>p. A (q @ p))"

definition compare_slots :: "(string \<Rightarrow> nat) \<Rightarrow> string \<Rightarrow> string \<Rightarrow> int" where
  "compare_slots place a b =
     (if place a < place b then - 1 else if place a = place b then 0 else 1)"

definition check_homogeneous ::
  "(string \<Rightarrow> nat) \<Rightarrow> glyph_canon_opts_t \<Rightarrow> glyph_value list \<Rightarrow> string list option" where
  "check_homogeneous place opts items =
     (if length items < min_rows opts then None
      else case collect_all_keys items [] of
        None \<Rightarrow> None
      | Some all_keys \<Rightarrow>
          if length all_keys = 0 \<or> length all_keys > max_cols opts then None
          else if common_count items all_keys * 2 < length all_keys then None
          else Some (qsort (compare_slots place) all_keys))"

definition find_cell :: "glyph_map_entry_t list \<Rightarrow> string \<Rightarrow> glyph_value option" where
  "find_cell entries col = map_option snd (find (\<lambda>e. strcmp (fst e) col = 0) entries)"

text \<open>Row \<open>i\<close> of a table; the cell of column \<open>j\<close> is child \<open>[i, j]\<close> of the list.\<close>

definition write_row ::
  "(nat list \<Rightarrow> glyph_value \<Rightarrow> string) \<Rightarrow> glyph_canon_opts_t \<Rightarrow> string list \<Rightarrow> nat \<Rightarrow> glyph_value
     \<Rightarrow> string" where
  "write_row wr opts cols i item =
     ''|'' @ concat (map (\<lambda>(j, c). (case find_cell (entries_or_none item) c of
                                       Some cell_val \<Rightarrow> wr [i, j] cell_val
                                     | None \<Rightarrow> canon_null (null_style opts)) @ ''|'')
                       (enumerate 0 cols))
         @ [CHR 0x0A]"

definition write_tabular ::
  "(nat list \<Rightarrow> glyph_value \<Rightarrow> string) \<Rightarrow> glyph_canon_opts_t \<Rightarrow> glyph_value list \<Rightarrow> string list
     \<Rightarrow> string" where
  "write_tabular wr opts items cols =
     ''@tab _ rows='' @ show_nat (length items) @ '' cols='' @ show_nat (length cols) @ '' ['' @
     join_sp (map write_canon_string cols) @ '']'' @ [CHR 0x0A] @
     concat (map (\<lambda>(i, item). write_row wr opts cols i item) (enumerate 0 items)) @
     ''@end''"

text \<open>\<open>write_canon_list\<close>; item \<open>i\<close> of a list in brackets is child \<open>[i]\<close>.\<close>

definition write_canon_list ::
  "(string \<Rightarrow> nat) \<Rightarrow> (nat list \<Rightarrow> glyph_value \<Rightarrow> string) \<Rightarrow> glyph_canon_opts_t
     \<Rightarrow> glyph_value list \<Rightarrow> string" where
  "write_canon_list place wr opts items =
     (case (if auto_tabular opts then check_homogeneous place opts items else None) of
        Some cols \<Rightarrow> write_tabular wr opts items cols
      | None \<Rightarrow> ''['' @ join_sp (map (\<lambda>(i, v). wr [i] v) (enumerate 0 items)) @ '']'')"

text \<open>Base64 of the bytes, three at a time.\<close>

definition b64 :: string where
  "b64 = ''ABCDEFGHIJKLMNOPQRSTUVWXYZabcdefghijklmnopqrstuvwxyz0123456789+/''"

fun base64 :: "8 word list \<Rightarrow> string" where
  "base64 [] = []"
| "base64 [a] =
     (let n = unat a * 65536 in
      [b64 ! ((n div 262144) mod 64), b64 ! ((n div 4096) mod 64), CHR ''='', CHR ''=''])"
| "base64 [a, b] =
     (let n = unat a * 65536 + unat b * 256 in
      [b64 ! ((n div 262144) mod 64), b64 ! ((n div 4096) mod 64), b64 ! ((n div 64) mod 64), CHR ''=''])"
| "base64 (a # b # c # rest) =
     (let n = unat a * 65536 + unat b * 256 + unat c in
      [b64 ! ((n div 262144) mod 64), b64 ! ((n div 4096) mod 64), b64 ! ((n div 64) mod 64),
       b64 ! (n mod 64)] @ base64 rest)"

lemma set_qsort_insert: "set (qsort_insert cmp x xs) = insert x (set xs)"
  by (induction xs) auto

lemma set_qsort: "set (qsort cmp xs) = set xs"
  by (induction xs) (auto simp: qsort_def set_qsort_insert)

lemma enumerate_snd_in: "(i, x) \<in> set (enumerate n xs) \<Longrightarrow> x \<in> set xs"
  by (auto simp: in_set_enumerate_eq)

lemma write_canon_map_cong [fundef_cong]:
  "entries = entries' \<Longrightarrow> (\<And>q e. e \<in> set entries' \<Longrightarrow> wr q (snd e) = wr' q (snd e)) \<Longrightarrow>
   write_canon_map wr entries = write_canon_map wr' entries'"
proof -
  assume e: "entries = entries'" and a: "\<And>q e. e \<in> set entries' \<Longrightarrow> wr q (snd e) = wr' q (snd e)"
  have a': "\<And>q k v. (k, v) \<in> set entries' \<Longrightarrow> wr q v = wr' q v"
    using a by force
  have "map (\<lambda>(i, e). write_canon_string (fst e) @ ''='' @ wr [i] (snd e))
          (enumerate 0 (qsort compare_entries entries')) =
        map (\<lambda>(i, e). write_canon_string (fst e) @ ''='' @ wr' [i] (snd e))
          (enumerate 0 (qsort compare_entries entries'))"
    by (rule map_cong [OF refl]) (auto dest!: enumerate_snd_in simp: set_qsort intro: a')
  then show ?thesis unfolding write_canon_map_def e by (simp only:)
qed

lemma find_cell_in:
  assumes "find_cell es c = Some v"
  shows "v \<in> snd ` set es"
proof -
  from assms obtain e where e: "find (\<lambda>e. strcmp (fst e) c = 0) es = Some e" and v: "v = snd e"
    unfolding find_cell_def by auto
  from e have "e \<in> set es"
    by (metis find_Some_iff nth_mem)
  with v show ?thesis by auto
qed

lemma write_row_cong:
  "(\<And>q v. v \<in> snd ` set (entries_or_none item) \<Longrightarrow> wr q v = wr' q v) \<Longrightarrow>
   write_row wr opts cols i item = write_row wr' opts cols i item"
proof -
  assume a: "\<And>q v. v \<in> snd ` set (entries_or_none item) \<Longrightarrow> wr q v = wr' q v"
  have "(case find_cell (entries_or_none item) c of Some cell_val \<Rightarrow> wr q cell_val
          | None \<Rightarrow> canon_null (null_style opts)) =
        (case find_cell (entries_or_none item) c of Some cell_val \<Rightarrow> wr' q cell_val
          | None \<Rightarrow> canon_null (null_style opts))" for c q
    using a find_cell_in by (cases "find_cell (entries_or_none item) c") auto
  then show ?thesis unfolding write_row_def by simp
qed

lemma write_canon_list_cong [fundef_cong]:
  assumes "items = items'" "opts = opts'" "place = place'"
    and i: "\<And>q v. v \<in> set items' \<Longrightarrow> wr q v = wr' q v"
    and c: "\<And>q item v. item \<in> set items' \<Longrightarrow> v \<in> snd ` set (entries_or_none item) \<Longrightarrow> wr q v = wr' q v"
  shows "write_canon_list place wr opts items = write_canon_list place' wr' opts' items'"
proof -
  have b: "map (\<lambda>(i, v). wr [i] v) (enumerate 0 items') = map (\<lambda>(i, v). wr' [i] v) (enumerate 0 items')"
    by (rule map_cong [OF refl]) (auto dest!: enumerate_snd_in simp: i)
  have r: "map (\<lambda>(i, item). write_row wr opts' cols i item) (enumerate 0 items') =
           map (\<lambda>(i, item). write_row wr' opts' cols i item) (enumerate 0 items')" for cols
    by (rule map_cong [OF refl]) (auto dest!: enumerate_snd_in intro!: write_row_cong c)
  show ?thesis
    unfolding write_canon_list_def write_tabular_def assms(1,2,3) b r ..
qed

lemma size_entry_value:
  "e \<in> set es \<Longrightarrow> size (snd e) < Suc (size_list (size_prod (\<lambda>_. 0) size) es)"
proof (induction es)
  case Nil
  then show ?case by simp
next
  case (Cons a es)
  then show ?case by (cases e) auto
qed

lemma size_item_cell:
  "v \<in> snd ` set (entries_or_none item) \<Longrightarrow> size v < size item"
  by (cases item) (auto simp: entries_or_none_def dest: size_entry_value)

text \<open>\<open>write_canon_value\<close>, canonicalizing under the layout \<open>A\<close>; the inner value of a Sum is
  child \<open>[0]\<close>.\<close>

function (sequential) write_canon_value ::
  "host \<Rightarrow> col_layout \<Rightarrow> glyph_canon_opts_t \<Rightarrow> glyph_value option \<Rightarrow> string" where
  "write_canon_value H A opts None = canon_null (null_style opts)"
| "write_canon_value H A opts (Some GNull) = canon_null (null_style opts)"
| "write_canon_value H A opts (Some (GBool bool_val)) = (if bool_val then ''t'' else ''f'')"
| "write_canon_value H A opts (Some (GInt int_val)) = show_long (sint int_val)"
| "write_canon_value H A opts (Some (GFloat float_val)) =
     (let f = (if dbl_eq_zero float_val then 0 else float_val) in
      if dbl_eq_floor f \<and> dbl_fabs_lt_1e15 f then show_long (dbl_to_long f)
      else fmt_g15 H f)"
| "write_canon_value H A opts (Some (GStr str_val)) =
     write_canon_string (case str_val of None \<Rightarrow> [] | Some s \<Rightarrow> s)"
| "write_canon_value H A opts (Some (GBytes data)) = ''b64'' @ [CHR 0x22] @ base64 data @ [CHR 0x22]"
| "write_canon_value H A opts (Some (GTime time_val)) = fmt_time H (c_div (sint time_val) 1000)"
| "write_canon_value H A opts (Some (GId pfx val)) =
     ''^'' @ (if pfx \<noteq> [] then pfx @ '':'' else []) @
     (if is_ref_bare_safe val then the val
      else write_quoted_string (case val of None \<Rightarrow> [] | Some s \<Rightarrow> s))"
| "write_canon_value H A opts (Some (GList items)) =
     write_canon_list (A []) (\<lambda>q v. write_canon_value H (sub_layout A q) opts (Some v)) opts items"
| "write_canon_value H A opts (Some (GMap entries)) =
     write_canon_map (\<lambda>q v. write_canon_value H (sub_layout A q) opts (Some v)) entries"
| "write_canon_value H A opts (Some (GStruct type_name flds)) =
     (case type_name of None \<Rightarrow> [] | Some s \<Rightarrow> s) @
     write_canon_map (\<lambda>q v. write_canon_value H (sub_layout A q) opts (Some v)) flds"
| "write_canon_value H A opts (Some (GSum tag val)) =
     (case tag of None \<Rightarrow> [] | Some s \<Rightarrow> s) @ ''('' @
     (case val of None \<Rightarrow> [] | Some v \<Rightarrow> write_canon_value H (sub_layout A [0]) opts (Some v)) @ '')''"
  by pat_completeness auto

termination
proof (relation "measure (\<lambda>(H, A, opts, v). size_option size v)")
  show "wf (measure (\<lambda>(H, A, opts, v). size_option size v))" by simp
next
  fix H :: host and A :: col_layout and opts :: glyph_canon_opts_t
    and items :: "glyph_value list" and q :: "nat list" and x
  assume "x \<in> set items"
  then show "((H, sub_layout A q, opts, Some x), H, A, opts, Some (GList items))
      \<in> measure (\<lambda>(H, A, opts, v). size_option size v)"
    by (simp add: less_Suc_eq_le size_list_estimation')
next
  fix H :: host and A :: col_layout and opts :: glyph_canon_opts_t
    and items :: "glyph_value list" and q :: "nat list" and xa xb
  assume "xa \<in> set items" "xb \<in> snd ` set (entries_or_none xa)"
  then have "size xb < size xa" "size xa \<le> size_list size items"
    using size_item_cell[of xb xa] by (simp_all add: size_list_estimation')
  then show "((H, sub_layout A q, opts, Some xb), H, A, opts, Some (GList items))
      \<in> measure (\<lambda>(H, A, opts, v). size_option size v)"
    by simp
qed (auto dest: size_entry_value)

subsection \<open>Public canonicalization functions\<close>

text \<open>Each call of a public function has the column layout \<open>A\<close> its allocations give;
  \<open>glyph_equal_loose\<close> canonicalizes twice, under \<open>A\<close> and then under \<open>B\<close>.\<close>

definition glyph_canonicalize_loose_with_opts ::
  "host \<Rightarrow> col_layout \<Rightarrow> glyph_value option \<Rightarrow> glyph_canon_opts_t \<Rightarrow> string" where
  "glyph_canonicalize_loose_with_opts H A v opts = write_canon_value H A opts v"

definition glyph_canonicalize_loose :: "host \<Rightarrow> col_layout \<Rightarrow> glyph_value option \<Rightarrow> string" where
  "glyph_canonicalize_loose H A v = glyph_canonicalize_loose_with_opts H A v glyph_canon_opts_default"


definition glyph_fingerprint_loose :: "host \<Rightarrow> col_layout \<Rightarrow> glyph_value option \<Rightarrow> string" where
  "glyph_fingerprint_loose H A v = glyph_canonicalize_loose H A v"

definition glyph_equal_loose ::
  "host \<Rightarrow> col_layout \<Rightarrow> col_layout \<Rightarrow> glyph_value option \<Rightarrow> glyph_value option \<Rightarrow> bool" where
  "glyph_equal_loose H A B a b =
     (strcmp (glyph_canonicalize_loose H A a) (glyph_canonicalize_loose H B b) = 0)"

unbundle bit_operations_syntax

section \<open>The JSON bridge (json.c)\<close>

subsection \<open>libc: \<open>strtoll\<close> and \<open>strtoul\<close>\<close>

definition digit_val :: "char \<Rightarrow> nat" where
  "digit_val c = uc c - 48"

definition digits_val :: "string \<Rightarrow> nat" where
  "digits_val ds = foldl (\<lambda>a d. 10 * a + digit_val d) 0 ds"

text \<open>\<open>strtoll(start, &end, 10)\<close>: leading white space, an optional sign, decimal digits;
  the value is clamped to the range of \<open>long long\<close>. The result is the value and the number
  of characters up to \<open>end\<close>, which is 0 when there is no digit.\<close>

definition strtoll :: "string \<Rightarrow> int \<times> nat" where
  "strtoll s =
     (let s1 = dropWhile isspace s;
          neg = (s1 \<noteq> [] \<and> hd s1 = CHR ''-'');
          s2 = (if s1 \<noteq> [] \<and> (hd s1 = CHR ''-'' \<or> hd s1 = CHR ''+'') then tl s1 else s1);
          ds = takeWhile isdigit s2
      in if ds = [] then (0, 0)
         else (if neg then max (- (2 ^ 63)) (- int (digits_val ds))
               else min (2 ^ 63 - 1) (int (digits_val ds)),
               length s - length s2 + length ds))"

definition isxdigit :: "char \<Rightarrow> bool" where
  "isxdigit c = (isdigit c \<or> (65 \<le> uc c \<and> uc c \<le> 70) \<or> (97 \<le> uc c \<and> uc c \<le> 102))"

definition xdigit_val :: "char \<Rightarrow> nat" where
  "xdigit_val c = (if isdigit c then uc c - 48 else if uc c \<le> 70 then uc c - 55 else uc c - 87)"

text \<open>\<open>strtoul(hex, NULL, 16)\<close> assigned to an \<open>unsigned int\<close>: leading white space, an
  optional sign, an optional \<open>0x\<close> before a hexadecimal digit, hexadecimal digits; a
  negative value wraps.\<close>

definition strtoul16 :: "string \<Rightarrow> nat" where
  "strtoul16 s =
     (let s1 = dropWhile isspace s;
          neg = (s1 \<noteq> [] \<and> hd s1 = CHR ''-'');
          s2 = (if s1 \<noteq> [] \<and> (hd s1 = CHR ''-'' \<or> hd s1 = CHR ''+'') then tl s1 else s1);
          s3 = (case s2 of
                  z # x # h # _ \<Rightarrow>
                    if z = CHR ''0'' \<and> (x = CHR ''x'' \<or> x = CHR ''X'') \<and> isxdigit h then drop 2 s2 else s2
                | _ \<Rightarrow> s2);
          v = foldl (\<lambda>a d. 16 * a + xdigit_val d) 0 (takeWhile isxdigit s3)
      in (if neg then 2 ^ 32 - v mod 2 ^ 32 else v) mod 2 ^ 32)"

subsection \<open>The parser\<close>

text \<open>
  The parser state \<open>(input, pos, len)\<close> is represented by the unread input, the bytes from
  \<open>pos\<close> to \<open>len\<close>: no function reads before \<open>pos\<close>. A function that advances \<open>pos\<close>
  returns the unread input it leaves. A function that fails returns \<open>None\<close> (NULL): the
  callers return NULL at once, so the position after a failure is never read.
\<close>

definition skip_whitespace :: "string \<Rightarrow> string" where
  "skip_whitespace s = dropWhile isspace s"

definition peek :: "string \<Rightarrow> char \<times> string" where
  "peek s = (let s' = skip_whitespace s in (case s' of [] \<Rightarrow> CHR 0x00 | c # _ \<Rightarrow> c, s'))"

definition next_c :: "string \<Rightarrow> char \<times> string" where
  "next_c s = (case skip_whitespace s of [] \<Rightarrow> (CHR 0x00, []) | c # r \<Rightarrow> (c, r))"

definition match :: "string \<Rightarrow> string \<Rightarrow> bool \<times> string" where
  "match s lit =
     (let s' = skip_whitespace s in
      if length lit \<le> length s' \<and> take (length lit) s' = lit then (True, drop (length lit) s')
      else (False, s'))"

text \<open>The C string a buffer holds: its bytes before the first NUL.\<close>

definition c_str :: "string \<Rightarrow> string" where
  "c_str buf = takeWhile (\<lambda>c. c \<noteq> CHR 0x00) buf"

text \<open>The bytes \<open>parse_string\<close> stores for a backslash followed by \<open>c\<close>, and the input
  left, \<open>rest\<close> being the input after \<open>c\<close>. A \<open>\\u\<close> with four more bytes of input is
  decoded to UTF-8, each byte being the value truncated to \<open>char\<close>; any other character
  stands for itself.\<close>

definition utf8_bmp :: "nat \<Rightarrow> string" where
  "utf8_bmp code =
     (if code < 0x80 then [char_of code]
      else if code < 0x800 then [char_of (0xC0 OR drop_bit 6 code), char_of (0x80 OR (code AND 0x3F))]
      else [char_of (0xE0 OR drop_bit 12 code), char_of (0x80 OR (drop_bit 6 code AND 0x3F)),
            char_of (0x80 OR (code AND 0x3F))])"

definition unescape :: "char \<Rightarrow> string \<Rightarrow> string \<times> string" where
  "unescape c rest =
     (if c = CHR ''n'' then ([CHR 0x0A], rest)
      else if c = CHR ''r'' then ([CHR 0x0D], rest)
      else if c = CHR ''t'' then ([CHR 0x09], rest)
      else if c = CHR ''u'' \<and> 4 \<le> length rest then (utf8_bmp (strtoul16 (take 4 rest)), drop 4 rest)
      else ([c], rest))"

lemma unescape_length: "length (snd (unescape c rest)) \<le> length rest"
  by (simp add: unescape_def)

text \<open>The loop of \<open>parse_string\<close>, after the opening quote: the unread input and the buffer
  \<open>str\<close>. Input that ends before a closing quote gives NULL.\<close>

function parse_string_loop :: "string \<Rightarrow> string \<Rightarrow> (string \<times> string) option" where
  "parse_string_loop [] str = None"
| "parse_string_loop (c # rest) str =
     (if c = CHR 0x22 then Some (c_str str, rest)
      else if c = CHR 0x5C \<and> rest \<noteq> [] then
        parse_string_loop (snd (unescape (hd rest) (tl rest))) (str @ fst (unescape (hd rest) (tl rest)))
      else parse_string_loop rest (str @ [c]))"
  by pat_completeness auto

termination
proof (relation "measure (\<lambda>(s, str). length s)")
  fix c :: char and rest str :: string
  assume "c \<noteq> CHR 0x22" "c = CHR 0x5C \<and> rest \<noteq> []"
  then show "((snd (unescape (hd rest) (tl rest)), str @ fst (unescape (hd rest) (tl rest))), c # rest, str)
      \<in> measure (\<lambda>(s, str). length s)"
    using unescape_length [of "hd rest" "tl rest"] by simp
qed simp_all

declare parse_string_loop.simps(2) [simp del]

lemma parse_string_loop_length:
  "parse_string_loop s str = Some (x, r) \<Longrightarrow> length r < length s"
proof (induction s str rule: parse_string_loop.induct)
  case (1 str)
  then show ?case by simp
next
  case (2 c rest str)
  show ?case
  proof (cases "c = CHR 0x22")
    case True
    with "2.prems" show ?thesis by (simp add: parse_string_loop.simps(2))
  next
    case nq: False
    show ?thesis
    proof (cases "c = CHR 0x5C \<and> rest \<noteq> []")
      case True
      with nq "2.prems" have "parse_string_loop (snd (unescape (hd rest) (tl rest)))
          (str @ fst (unescape (hd rest) (tl rest))) = Some (x, r)"
        by (simp add: parse_string_loop.simps(2))
      from "2.IH"(1) [OF nq True this] unescape_length [of "hd rest" "tl rest"]
      show ?thesis by simp
    next
      case False
      with nq "2.prems" have "parse_string_loop rest (str @ [c]) = Some (x, r)"
        by (simp add: parse_string_loop.simps(2))
      from "2.IH"(2) [OF nq False this] show ?thesis by simp
    qed
  qed
qed

definition parse_string :: "string \<Rightarrow> (string \<times> string) option" where
  "parse_string s =
     (case next_c s of (c, s1) \<Rightarrow> if c \<noteq> CHR 0x22 then None else parse_string_loop s1 [])"

definition parse_number :: "host \<Rightarrow> string \<Rightarrow> (glyph_value \<times> string) option" where
  "parse_number H s =
     (let start = skip_whitespace s in
      case strtoll start of
        (int_val, n) \<Rightarrow>
          if 0 < n \<and> (case drop n start of [] \<Rightarrow> False
                        | e # _ \<Rightarrow> e = CHR ''.'' \<or> e = CHR ''e'' \<or> e = CHR ''E'') then
            (case strtod H start of (float_val, m) \<Rightarrow> Some (GFloat float_val, drop m start))
          else if 0 < n then Some (GInt (word_of_int int_val), drop n start)
          else None)"

lemma length_skip_whitespace: "length (skip_whitespace s) \<le> length s"
  by (simp add: skip_whitespace_def length_dropWhile_le)

lemma next_c_shorter: "next_c s = (c, r) \<Longrightarrow> c \<noteq> CHR 0x00 \<Longrightarrow> length r < length s"
  using length_skip_whitespace [of s] by (auto simp: next_c_def split: list.splits)

lemma next_c_shorter3: "(c, r) = next_c s \<Longrightarrow> c \<noteq> CHR 0x00 \<Longrightarrow> Suc (Suc (3 * length r)) < 3 * length s"
  using next_c_shorter [of s c r] by simp

lemma next_c_le: "length (snd (next_c s)) \<le> length s"
  using length_skip_whitespace [of s] by (auto simp: next_c_def split: list.splits)

lemma peek_next_c: "fst (peek s) = c \<Longrightarrow> c \<noteq> CHR 0x00 \<Longrightarrow> length (snd (next_c s)) < length s"
  using length_skip_whitespace [of s] by (auto simp: peek_def next_c_def Let_def split: list.splits)

lemma parse_string_length: "parse_string s = Some (x, r) \<Longrightarrow> length r < length s"
  using next_c_le [of s]
  by (auto simp: parse_string_def split: prod.splits if_splits dest!: parse_string_loop_length)

lemma colon_shorter:
  "parse_string s = Some (key, s1) \<Longrightarrow> (c, s2) = next_c s1 \<Longrightarrow> length s2 < length s"
  using parse_string_length [of s key s1] next_c_le [of s1] by (metis le_less_trans snd_conv)

text \<open>
  \<open>parse_value\<close>, \<open>parse_array\<close> and \<open>parse_object\<close> with their \<open>while (1)\<close> loops;
  \<open>list\<close> and \<open>entries\<close> are the container built so far. The loops go on from the
  position the parsed item left. The test that this position is not before the item's
  start is not in the C code: it is never false (\<open>parse_value_length\<close> below), and it is
  what the termination proof rests on.
\<close>

function parse_value :: "host \<Rightarrow> string \<Rightarrow> (glyph_value \<times> string) option"
  and parse_array :: "host \<Rightarrow> string \<Rightarrow> (glyph_value \<times> string) option"
  and parse_array_loop :: "host \<Rightarrow> glyph_value list \<Rightarrow> string \<Rightarrow> (glyph_value \<times> string) option"
  and parse_object :: "host \<Rightarrow> string \<Rightarrow> (glyph_value \<times> string) option"
  and parse_object_loop ::
    "host \<Rightarrow> glyph_map_entry_t list \<Rightarrow> string \<Rightarrow> (glyph_value \<times> string) option"
where
  "parse_value H s =
     (let c = fst (peek s) in
      if c = CHR ''n'' \<and> fst (match s ''null'') then Some (GNull, snd (match s ''null''))
      else if c = CHR ''t'' \<and> fst (match s ''true'') then Some (GBool True, snd (match s ''true''))
      else if c = CHR ''f'' \<and> fst (match s ''false'') then Some (GBool False, snd (match s ''false''))
      else if c = CHR 0x22 then
        (case parse_string s of None \<Rightarrow> None | Some (str, r) \<Rightarrow> Some (GStr (Some str), r))
      else if c = CHR ''['' then parse_array H s
      else if c = CHR ''{'' then parse_object H s
      else if c = CHR ''-'' \<or> isdigit c then parse_number H s
      else None)"
| "parse_array H s =
     (case next_c s of
        (c, s1) \<Rightarrow>
          if c \<noteq> CHR ''['' then None
          else if fst (peek s1) = CHR '']'' then Some (GList [], snd (next_c s1))
          else parse_array_loop H [] s1)"
| "parse_array_loop H list s =
     (case parse_value H s of
        None \<Rightarrow> None
      | Some (item, s') \<Rightarrow>
          if length s' \<le> length s then
            (let c = fst (peek s') in
             if c = CHR '']'' then Some (GList (list @ [item]), snd (next_c s'))
             else if c \<noteq> CHR '','' then None
             else parse_array_loop H (list @ [item]) (snd (next_c s')))
          else None)"
| "parse_object H s =
     (case next_c s of
        (c, s1) \<Rightarrow>
          if c \<noteq> CHR ''{'' then None
          else if fst (peek s1) = CHR ''}'' then Some (GMap [], snd (next_c s1))
          else parse_object_loop H [] s1)"
| "parse_object_loop H entries s =
     (if fst (peek s) \<noteq> CHR 0x22 then None
      else case parse_string s of
        None \<Rightarrow> None
      | Some (key, s1) \<Rightarrow>
          (case next_c s1 of
             (c, s2) \<Rightarrow>
               if c \<noteq> CHR '':'' then None
               else
                 (case parse_value H s2 of
                    None \<Rightarrow> None
                  | Some (val, s') \<Rightarrow>
                      if length s' \<le> length s2 then
                        (let c = fst (peek s') in
                         if c = CHR ''}'' then Some (GMap (entries @ [(key, val)]), snd (next_c s'))
                         else if c \<noteq> CHR '','' then None
                         else parse_object_loop H (entries @ [(key, val)]) (snd (next_c s')))
                      else None)))"
  by pat_completeness auto

termination
  apply (relation "measure (\<lambda>x. case x of
      Inl (Inl (H, s)) \<Rightarrow> 3 * length s + 1
    | Inl (Inr (H, s)) \<Rightarrow> 3 * length s
    | Inr (Inl (H, l, s)) \<Rightarrow> 3 * length s + 2
    | Inr (Inr (Inl (H, s))) \<Rightarrow> 3 * length s
    | Inr (Inr (Inr (H, es, s))) \<Rightarrow> 3 * length s + 2)")
  apply (auto dest: peek_next_c)
  subgoal by (rule next_c_shorter3, assumption, simp)
  subgoal by (rule next_c_shorter3, assumption, simp)
  subgoal for s a b ya using colon_shorter [of s a b "CHR '':''" ya] by simp
  subgoal for H s a b ya aa ba
    using colon_shorter [of s a b "CHR '':''" ya] peek_next_c [of ba "CHR '',''"] by simp
  done

declare parse_value.simps [simp del] parse_array.simps [simp del] parse_array_loop.simps [simp del]
  parse_object.simps [simp del] parse_object_loop.simps [simp del]










subsection \<open>The serializer\<close>





section \<open>Properties\<close>

text \<open>A host for the examples. It formats a NaN, an infinity and a whole number below
  \<open>10^15\<close> as glibc does, and answers \<open>0.5\<close> for every other double, which is right for
  the double 0.5, the only other one the examples format; its \<open>strtod\<close> reads that text
  back.\<close>

definition sample_host :: host where
  "sample_host =
     \<lparr> fmt_g15 = (\<lambda>f. if dbl_isnan f then (if dbl_sign f then ''-nan'' else ''nan'')
                     else if dbl_isinf f then (if dbl_sign f then ''-inf'' else ''inf'')
                     else if dbl_eq_floor f \<and> dbl_fabs_lt_1e15 f then
                       (if dbl_sign f \<and> dbl_eq_zero f then ''-0'' else show_long (dbl_to_long f))
                     else ''0.5''),
       fmt_time = (\<lambda>t. ''1970-01-01T00:00:00Z''),
       strtod = (\<lambda>s. (0x3FE0000000000000, 3)) \<rparr>"

text \<open>Two column layouts for the examples: in \<open>layout_asc\<close> the copy of a name lies the
  higher the greater the first byte of the name is, at every list; in \<open>layout_desc\<close> the
  lower.\<close>

definition layout_asc :: col_layout where
  "layout_asc = (\<lambda>p k. case k of [] \<Rightarrow> 0 | c # cs \<Rightarrow> uc c)"

definition layout_desc :: col_layout where
  "layout_desc = (\<lambda>p k. case k of [] \<Rightarrow> 255 | c # cs \<Rightarrow> 255 - uc c)"

lemma strcmp_eq_0 [simp]: "strcmp a b = 0 \<longleftrightarrow> a = b"
  by (induction a b rule: strcmp.induct) auto

subsection \<open>Absent values\<close>

text \<open>C9: canonicalizing an absent (NULL) value pointer yields the null glyph of the
  selected style, \<open>_\<close> under the default options and the three UTF-8 bytes of the empty-set
  sign under the pretty preset; the type query reports the Null kind for an absent value.\<close>

theorem canon_absent_value:
  "write_canon_value H A opts None = canon_null (null_style opts) \<and>
   glyph_canonicalize_loose H A None = ''_'' \<and>
   glyph_canonicalize_loose_with_opts H A None glyph_canon_opts_pretty = [CHR 0xE2, CHR 0x88, CHR 0x85] \<and>
   glyph_get_type None = GLYPH_NULL"
  by (simp add: glyph_canonicalize_loose_def glyph_canonicalize_loose_with_opts_def
      glyph_canon_opts_default_def glyph_canon_opts_pretty_def canon_null_def glyph_get_type_def)

text \<open>The same at the sample host.\<close>

theorem canon_absent_value_witness:
  "glyph_canonicalize_loose sample_host layout_asc None = ''_'' \<and>
   glyph_canonicalize_loose_with_opts sample_host layout_asc None glyph_canon_opts_pretty = [CHR 0xE2, CHR 0x88, CHR 0x85] \<and>
   glyph_get_type None = GLYPH_NULL"
  using canon_absent_value [of sample_host layout_asc glyph_canon_opts_default] by simp

subsection \<open>Mutators whose preconditions fail\<close>

text \<open>C10: \<open>glyph_list_append\<close> leaves the container as it is when the container is
  absent, is not a List, or the item is absent; \<open>glyph_map_set\<close> and \<open>glyph_struct_set\<close>
  leave it as it is when the container is absent or of another kind, or the key or the value
  is absent.\<close>

theorem mutators_noop:
  "(list = None \<or> glyph_get_type list \<noteq> GLYPH_LIST \<or> item = None
      \<longrightarrow> glyph_list_append list item = list) \<and>
   (m = None \<or> glyph_get_type m \<noteq> GLYPH_MAP \<or> key = None \<or> val = None
      \<longrightarrow> glyph_map_set m key val = m) \<and>
   (s = None \<or> glyph_get_type s \<noteq> GLYPH_STRUCT \<or> key = None \<or> val = None
      \<longrightarrow> glyph_struct_set s key val = s)"
proof (intro conjI impI)
  assume "list = None \<or> glyph_get_type list \<noteq> GLYPH_LIST \<or> item = None"
  then show "glyph_list_append list item = list"
    by (cases "(list, item)" rule: glyph_list_append.cases) (auto simp: glyph_get_type_def)
next
  assume "m = None \<or> glyph_get_type m \<noteq> GLYPH_MAP \<or> key = None \<or> val = None"
  then show "glyph_map_set m key val = m"
    by (cases "(m, key, val)" rule: glyph_map_set.cases) (auto simp: glyph_get_type_def)
next
  assume "s = None \<or> glyph_get_type s \<noteq> GLYPH_STRUCT \<or> key = None \<or> val = None"
  then show "glyph_struct_set s key val = s"
    by (cases "(s, key, val)" rule: glyph_struct_set.cases) (auto simp: glyph_get_type_def)
qed

text \<open>Each failing precondition at a concrete call.\<close>

theorem mutators_noop_witness:
  "glyph_list_append None (Some GNull) = None \<and>
   glyph_list_append (Some (GMap [])) (Some GNull) = Some (GMap []) \<and>
   glyph_list_append (Some (GList [GNull])) None = Some (GList [GNull]) \<and>
   glyph_map_set None (Some ''k'') (Some GNull) = None \<and>
   glyph_map_set (Some (GList [])) (Some ''k'') (Some GNull) = Some (GList []) \<and>
   glyph_map_set (Some (GMap [(''a'', GNull)])) None (Some GNull) = Some (GMap [(''a'', GNull)]) \<and>
   glyph_map_set (Some (GMap [(''a'', GNull)])) (Some ''k'') None = Some (GMap [(''a'', GNull)]) \<and>
   glyph_struct_set None (Some ''k'') (Some GNull) = None \<and>
   glyph_struct_set (Some (GMap [])) (Some ''k'') (Some GNull) = Some (GMap []) \<and>
   glyph_struct_set (Some (GStruct (Some ''T'') [])) None (Some GNull) = Some (GStruct (Some ''T'') []) \<and>
   glyph_struct_set (Some (GStruct (Some ''T'') [])) (Some ''k'') None = Some (GStruct (Some ''T'') [])"
  using mutators_noop [of None "Some GNull" None "Some ''k''" "Some GNull" None]
        mutators_noop [of "Some (GMap [])" "Some GNull" "Some (GList [])" "Some ''k''" "Some GNull" "Some (GMap [])"]
        mutators_noop [of "Some (GList [GNull])" None "Some (GMap [(''a'', GNull)])" None "Some GNull"
                          "Some (GStruct (Some ''T'') [])"]
        mutators_noop [of None None "Some (GMap [(''a'', GNull)])" "Some ''k''" None
                          "Some (GStruct (Some ''T'') [])"]
  by (simp add: glyph_get_type_def)

subsection \<open>Barewords\<close>

text \<open>The bareword test in the words of the specification: non-empty; the first character
  is no digit, double quote, single quote or dash; not a reserved token; every byte is ASCII
  alphanumeric, one of \<open>_ - . / @ :\<close>, or above 0x7F.\<close>

definition spec_bare_eligible :: "string \<Rightarrow> bool" where
  "spec_bare_eligible s =
     (s \<noteq> [] \<and>
      hd s \<notin> set ''0123456789'' \<and> hd s \<noteq> CHR 0x22 \<and> hd s \<noteq> CHR 0x27 \<and> hd s \<noteq> CHR ''-'' \<and>
      s \<notin> {''t'', ''f'', ''true'', ''false'', ''null'', ''_''} \<and>
      list_all (\<lambda>c. c \<in> set ''0123456789ABCDEFGHIJKLMNOPQRSTUVWXYZabcdefghijklmnopqrstuvwxyz'' \<or>
                      c \<in> set ''_-./@:'' \<or> (of_char c :: nat) > 0x7F) s)"

lemma isdigit_chars: "isdigit c \<Longrightarrow> c \<in> set ''0123456789''"
proof -
  assume a: "isdigit c"
  define n :: nat where "n = of_char c"
  from a have "n = 48 \<or> n = 49 \<or> n = 50 \<or> n = 51 \<or> n = 52 \<or> n = 53 \<or> n = 54 \<or> n = 55 \<or> n = 56 \<or> n = 57"
    unfolding isdigit_def uc_def n_def by arith
  then have "n = of_char CHR ''0'' \<or> n = of_char CHR ''1'' \<or> n = of_char CHR ''2'' \<or>
     n = of_char CHR ''3'' \<or> n = of_char CHR ''4'' \<or> n = of_char CHR ''5'' \<or> n = of_char CHR ''6'' \<or>
     n = of_char CHR ''7'' \<or> n = of_char CHR ''8'' \<or> n = of_char CHR ''9''"
    by simp
  then show ?thesis unfolding n_def of_char_eq_iff by simp
qed

lemma alnum_chars:
  "c \<in> set ''0123456789ABCDEFGHIJKLMNOPQRSTUVWXYZabcdefghijklmnopqrstuvwxyz'' \<Longrightarrow> isalnum c"
  unfolding isalnum_def isdigit_def uc_def by (simp, elim disjE; simp)

lemma spec_bare_eligible_safe: "spec_bare_eligible s \<Longrightarrow> is_bare_safe s"
proof -
  assume a: "spec_bare_eligible s"
  then obtain x xs where s: "s = x # xs" by (cases s) (simp_all add: spec_bare_eligible_def)
  from a have "x \<notin> set ''0123456789''" "x \<noteq> CHR 0x22" "x \<noteq> CHR 0x27" "x \<noteq> CHR ''-''"
    unfolding spec_bare_eligible_def s by simp_all
  then have 1: "\<not> isdigit x" "x \<noteq> CHR 0x22" "x \<noteq> CHR 0x27" "x \<noteq> CHR ''-''"
    using isdigit_chars[of x] by blast+
  from a have 2: "s \<noteq> ''t''" "s \<noteq> ''f''" "s \<noteq> ''true''" "s \<noteq> ''false''" "s \<noteq> ''null''" "s \<noteq> ''_''"
    unfolding spec_bare_eligible_def by blast+
  have imp: "isalnum c \<or> c = CHR ''_'' \<or> c = CHR ''-'' \<or> c = CHR ''.'' \<or>
                              c = CHR ''/'' \<or> c = CHR ''@'' \<or> c = CHR '':'' \<or> uc c > 127"
    if "c \<in> set ''0123456789ABCDEFGHIJKLMNOPQRSTUVWXYZabcdefghijklmnopqrstuvwxyz'' \<or>
                      c \<in> set ''_-./@:'' \<or> (of_char c :: nat) > 0x7F" for c
    using that
  proof (elim disjE)
    assume "c \<in> set ''0123456789ABCDEFGHIJKLMNOPQRSTUVWXYZabcdefghijklmnopqrstuvwxyz''"
    then show ?thesis using alnum_chars by blast
  next
    assume "c \<in> set ''_-./@:''"
    then show ?thesis by simp blast
  next
    assume "(of_char c :: nat) > 0x7F"
    then show ?thesis by (simp add: uc_def)
  qed
  from a have "list_all (\<lambda>c. c \<in> set ''0123456789ABCDEFGHIJKLMNOPQRSTUVWXYZabcdefghijklmnopqrstuvwxyz'' \<or>
                      c \<in> set ''_-./@:'' \<or> (of_char c :: nat) > 0x7F) s"
    unfolding spec_bare_eligible_def by blast
  then have 3: "list_all (\<lambda>c. isalnum c \<or> c = CHR ''_'' \<or> c = CHR ''-'' \<or> c = CHR ''.'' \<or>
                              c = CHR ''/'' \<or> c = CHR ''@'' \<or> c = CHR '':'' \<or> uc c > 127) s"
    using imp unfolding list_all_iff by blast
  show ?thesis
    unfolding is_bare_safe_def using 1 2 3 by (simp add: s)
qed

text \<open>C5: a string that passes the bareword test of the specification is encoded as its own
  bytes, with no quotes and no escapes, under every option set.\<close>

theorem bareword_verbatim:
  "spec_bare_eligible s \<Longrightarrow> write_canon_value H A opts (Some (GStr (Some s))) = s"
  by (simp add: write_canon_string_def spec_bare_eligible_safe)

text \<open>A string using each of the six punctuation characters.\<close>

theorem bareword_verbatim_witness:
  "spec_bare_eligible ''user@example.com/a_b-c:1'' \<and>
   glyph_canonicalize_loose sample_host layout_asc (Some (GStr (Some ''user@example.com/a_b-c:1''))) = ''user@example.com/a_b-c:1''"
proof -
  have h: "spec_bare_eligible ''user@example.com/a_b-c:1''"
    by (simp add: spec_bare_eligible_def)
  show ?thesis
    using h bareword_verbatim [OF h, of sample_host layout_asc glyph_canon_opts_default]
    by (simp add: glyph_canonicalize_loose_def glyph_canonicalize_loose_with_opts_def)
qed

subsection \<open>Whole-number collapse\<close>

lemma dbl_eq_zero_val: "dbl_eq_zero d \<Longrightarrow> dbl_val d = 0"
  by (simp add: dbl_eq_zero_def dbl_val_def)

lemma dbl_zero_facts:
  "dbl_exp 0 = 0" "dbl_frac 0 = 0" "dbl_sign 0 = False"
  by (simp_all add: dbl_exp_def dbl_frac_def dbl_sign_def)

lemma dbl_zero_whole: "dbl_eq_floor 0" "dbl_fabs_lt_1e15 0" "dbl_to_long 0 = 0" "dbl_eq_zero 0"
  by (simp_all add: dbl_eq_floor_def dbl_fabs_lt_1e15_def dbl_to_long_def dbl_isnan_def
      dbl_isinf_def dbl_finite_def dbl_val_def dbl_eq_zero_def dbl_zero_facts)

lemma sint_small: "\<bar>n\<bar> < 10 ^ 15 \<Longrightarrow> sint (word_of_int n :: 64 word) = n"
proof -
  assume a: "\<bar>n\<bar> < 10 ^ 15"
  have "(10::int) ^ 15 < 2 ^ 63" by simp
  with a have "- (2 ^ 63) \<le> n" "n < 2 ^ 63" by linarith+
  then show ?thesis
    by (simp add: signed_take_bit_int_eq_self sint_sbintrunc')
qed

lemma write_float_whole:
  "write_canon_value H A opts (Some (GFloat d)) =
     (if dbl_eq_zero d then show_long 0
      else if dbl_eq_floor d \<and> dbl_fabs_lt_1e15 d then show_long (dbl_to_long d)
      else fmt_g15 H d)"
  by (simp add: dbl_zero_whole)

text \<open>C4: for every integer \<open>n\<close> with \<open>|n| < 10^15\<close> and every double that holds exactly
  \<open>n\<close> (for \<open>n = 0\<close> both zeros do), the Float is encoded as the Int \<open>n\<close> is.\<close>

theorem whole_float_as_int:
  assumes "dbl_finite d" "dbl_val d = of_int n" "\<bar>n\<bar> < 10 ^ 15"
  shows "write_canon_value H A opts (Some (GFloat d)) =
         write_canon_value H A opts (Some (GInt (word_of_int n)))"
proof -
  have R: "write_canon_value H A opts (Some (GInt (word_of_int n))) = show_long n"
    using sint_small [OF assms(3)] by simp
  show ?thesis
  proof (cases "dbl_eq_zero d")
    case True
    with assms(2) have "n = 0" by (simp add: dbl_eq_zero_val)
    then show ?thesis unfolding R write_float_whole using True by simp
  next
    case False
    from assms(1) have nn: "\<not> dbl_isnan d" "\<not> dbl_isinf d"
      by (simp_all add: dbl_finite_def dbl_isnan_def dbl_isinf_def)
    have fl: "dbl_eq_floor d" unfolding dbl_eq_floor_def using nn assms(2) by simp
    have "\<bar>(of_int n :: rat)\<bar> < of_int (10 ^ 15)"
      using assms(3) unfolding of_int_abs [symmetric] of_int_less_iff .
    then have lt: "dbl_fabs_lt_1e15 d" unfolding dbl_fabs_lt_1e15_def using assms(1,2) by simp
    have tl: "dbl_to_long d = n" unfolding dbl_to_long_def assms(2) by simp
    show ?thesis unfolding R write_float_whole using False fl lt tl by simp
  qed
qed

text \<open>The doubles 42.0 and -0.0 are encoded as \<open>42\<close> and \<open>0\<close>.\<close>

theorem whole_float_as_int_witness:
  "dbl_finite 0x4045000000000000 \<and> dbl_val 0x4045000000000000 = of_int 42 \<and> \<bar>42::int\<bar> < 10 ^ 15 \<and>
   write_canon_value sample_host layout_asc glyph_canon_opts_default (Some (GFloat 0x4045000000000000)) = ''42'' \<and>
   write_canon_value sample_host layout_asc glyph_canon_opts_default (Some (GInt 42)) = ''42'' \<and>
   dbl_finite 0x8000000000000000 \<and> dbl_val 0x8000000000000000 = of_int 0 \<and>
   write_canon_value sample_host layout_asc glyph_canon_opts_default (Some (GFloat 0x8000000000000000)) = ''0'' \<and>
   write_canon_value sample_host layout_asc glyph_canon_opts_default (Some (GInt 0)) = ''0''"
proof -
  have a: "dbl_finite 0x4045000000000000" "dbl_val 0x4045000000000000 = of_int 42" "\<bar>42::int\<bar> < 10 ^ 15"
    by (simp_all add: dbl_finite_def dbl_val_def dbl_sign_def dbl_exp_def dbl_frac_def)
  have b: "dbl_finite 0x8000000000000000" "dbl_val 0x8000000000000000 = of_int 0" "\<bar>0::int\<bar> < 10 ^ 15"
    by (simp_all add: dbl_finite_def dbl_val_def dbl_sign_def dbl_exp_def dbl_frac_def)
  have i: "show_long 42 = ''42''" "show_long 0 = ''0''" by code_simp+
  have s: "sint (42 :: 64 word) = 42" "sint (0 :: 64 word) = 0" by simp_all
  have ia: "write_canon_value sample_host layout_asc glyph_canon_opts_default (Some (GInt 42)) = ''42''"
    unfolding write_canon_value.simps s i ..
  have ib: "write_canon_value sample_host layout_asc glyph_canon_opts_default (Some (GInt 0)) = ''0''"
    unfolding write_canon_value.simps s i ..
  have fa: "write_canon_value sample_host layout_asc glyph_canon_opts_default (Some (GFloat 0x4045000000000000)) = ''42''"
    using whole_float_as_int [OF a, of sample_host layout_asc glyph_canon_opts_default] ia by simp
  have fb: "write_canon_value sample_host layout_asc glyph_canon_opts_default (Some (GFloat 0x8000000000000000)) = ''0''"
    using whole_float_as_int [OF b, of sample_host layout_asc glyph_canon_opts_default] ib by simp
  show ?thesis using a b ia ib fa fb by blast
qed

subsection \<open>Key order\<close>

text \<open>\<open>strcmp\<close> is a total order on strings, and \<open>qsort\<close> by \<open>compare_entries\<close>
  returns the one arrangement of entries with distinct keys that is in key order.\<close>

lemma uc_inj: "uc x = uc y \<longleftrightarrow> x = y"
  by (simp add: uc_def)

lemma strcmp_swap: "strcmp b a = - strcmp a b"
  by (induction a b rule: strcmp.induct) (auto simp: uc_inj)

lemma strcmp_range: "strcmp a b = - 1 \<or> strcmp a b = 0 \<or> strcmp a b = 1"
  by (induction a b rule: strcmp.induct) auto

lemma strcmp_total: "strcmp a b \<le> 0 \<or> strcmp b a \<le> 0"
  using strcmp_swap [of a b] by linarith

lemma strcmp_antisym: "strcmp a b \<le> 0 \<Longrightarrow> strcmp b a \<le> 0 \<Longrightarrow> a = b"
  using strcmp_swap [of a b] strcmp_eq_0 [of a b] by linarith

lemma strcmp_trans: "strcmp a b \<le> 0 \<Longrightarrow> strcmp b c \<le> 0 \<Longrightarrow> strcmp a c \<le> 0"
proof (induction a arbitrary: b c)
  case Nil
  then show ?case by (cases c) auto
next
  case (Cons x xs)
  show ?case
  proof (cases b)
    case Nil
    with Cons.prems show ?thesis by simp
  next
    case b: (Cons y ys)
    show ?thesis
    proof (cases c)
      case Nil
      with Cons.prems b show ?thesis by simp
    next
      case c: (Cons z zs)
      from Cons.prems b c Cons.IH [of ys zs] show ?thesis
        by (auto simp: uc_inj split: if_splits)
    qed
  qed
qed

lemma mset_qsort_insert: "mset (qsort_insert cmp x xs) = add_mset x (mset xs)"
  by (induction xs) auto

lemma mset_qsort: "mset (qsort cmp xs) = mset xs"
  by (induction xs) (auto simp: qsort_def mset_qsort_insert)

definition entry_le :: "glyph_map_entry_t \<Rightarrow> glyph_map_entry_t \<Rightarrow> bool" where
  "entry_le a b = (compare_entries a b \<le> 0)"

lemma entry_le_trans: "entry_le a b \<Longrightarrow> entry_le b c \<Longrightarrow> entry_le a c"
  unfolding entry_le_def compare_entries_def by (rule strcmp_trans)

lemma entry_le_total: "entry_le a b \<or> entry_le b a"
  unfolding entry_le_def compare_entries_def by (rule strcmp_total)

lemma sorted_qsort_insert:
  "sorted_wrt entry_le xs \<Longrightarrow> sorted_wrt entry_le (qsort_insert compare_entries x xs)"
proof (induction xs)
  case Nil
  then show ?case by simp
next
  case (Cons y ys)
  show ?case
  proof (cases "compare_entries x y \<le> 0")
    case True
    then have "entry_le x y" by (simp add: entry_le_def)
    with Cons.prems show ?thesis using True by (auto intro: entry_le_trans)
  next
    case False
    then have "entry_le y x" using entry_le_total [of x y] by (simp add: entry_le_def)
    with Cons show ?thesis using False by (auto simp: set_qsort_insert)
  qed
qed

lemma sorted_qsort: "sorted_wrt entry_le (qsort compare_entries xs)"
  by (induction xs) (auto simp: qsort_def sorted_qsort_insert)

lemma sorted_entries_unique:
  "sorted_wrt entry_le xs \<Longrightarrow> sorted_wrt entry_le ys \<Longrightarrow> mset xs = mset ys \<Longrightarrow>
   distinct (map fst xs) \<Longrightarrow> xs = ys"
proof (induction xs arbitrary: ys)
  case Nil
  then show ?case by simp
next
  case (Cons x xs)
  from Cons.prems(3) obtain y ys' where ys: "ys = y # ys'"
    by (cases ys) auto
  have sets: "set (x # xs) = set ys"
    using Cons.prems(3) by (metis set_mset_mset)
  have inj: "a = b" if "a \<in> set (x # xs)" "b \<in> set (x # xs)" "fst a = fst b" for a b
    using that Cons.prems(4) by (meson distinct_map inj_onD)
  have "x = y"
  proof (rule ccontr)
    assume ne: "x \<noteq> y"
    with sets ys have "x \<in> set ys'" "y \<in> set xs" by auto
    then have "entry_le y x" "entry_le x y"
      using Cons.prems(1,2) ys by auto
    then have "fst x = fst y"
      unfolding entry_le_def compare_entries_def by (rule strcmp_antisym [rotated])
    moreover have "y \<in> set (x # xs)" using sets ys by auto
    ultimately show False using inj [of x y] ne by simp
  qed
  moreover have "xs = ys'"
  proof (rule Cons.IH)
    show "sorted_wrt entry_le xs" using Cons.prems(1) by simp
    show "sorted_wrt entry_le ys'" using Cons.prems(2) ys by simp
    show "mset xs = mset ys'" using Cons.prems(3) ys \<open>x = y\<close> by simp
    show "distinct (map fst xs)" using Cons.prems(4) by simp
  qed
  ultimately show ?case using ys by simp
qed

lemma qsort_perm_distinct:
  assumes "distinct (map fst es)" "mset es' = mset es"
  shows "qsort compare_entries es' = qsort compare_entries es"
proof (rule sorted_entries_unique)
  show "sorted_wrt entry_le (qsort compare_entries es')" by (rule sorted_qsort)
  show "sorted_wrt entry_le (qsort compare_entries es)" by (rule sorted_qsort)
  show "mset (qsort compare_entries es') = mset (qsort compare_entries es)"
    using assms(2) by (simp add: mset_qsort)
  have "mset (map fst (qsort compare_entries es')) = mset (map fst es)"
    using assms(2) by (metis mset_map mset_qsort)
  then show "distinct (map fst (qsort compare_entries es'))"
    using assms(1) by (metis mset_eq_imp_distinct_iff)
qed
text \<open>No list of the value is written as a table under \<open>opts\<close>: whether a list is, does not
  depend on the column layout.\<close>

function (sequential) no_table :: "glyph_canon_opts_t \<Rightarrow> glyph_value \<Rightarrow> bool" where
  "no_table opts (GList items) =
     ((auto_tabular opts \<longrightarrow> check_homogeneous (\<lambda>k. 0) opts items = None) \<and>
      list_all (no_table opts) items)"
| "no_table opts (GMap entries) = list_all (\<lambda>e. no_table opts (snd e)) entries"
| "no_table opts (GStruct tn flds) = list_all (\<lambda>e. no_table opts (snd e)) flds"
| "no_table opts (GSum tag val) = (case val of None \<Rightarrow> True | Some v \<Rightarrow> no_table opts v)"
| "no_table opts v = True"
  by pat_completeness auto

termination
proof (relation "measure (\<lambda>(opts, v). size v)")
  fix opts :: glyph_canon_opts_t and items :: "glyph_value list" and x
  assume "x \<in> set items"
  then show "((opts, x), opts, GList items) \<in> measure (\<lambda>(opts, v). size v)"
    by (simp add: less_Suc_eq_le size_list_estimation')
qed (auto dest: size_entry_value)

lemma check_homogeneous_None:
  "check_homogeneous place opts items = None \<Longrightarrow> check_homogeneous place' opts items = None"
  by (auto simp: check_homogeneous_def split: option.splits if_splits)

text \<open>The layout is consulted for tables only: a value without one has the same canonical
  form under every layout.\<close>

lemma canon_without_tables:
  "no_table opts v \<Longrightarrow> write_canon_value H A opts (Some v) = write_canon_value H B opts (Some v)"
proof (induction v arbitrary: A B rule: no_table.induct)
  case (1 opts items)
  have ih: "write_canon_value H A' opts (Some x) = write_canon_value H B' opts (Some x)"
    if "x \<in> set items" for x A' B'
    using "1.IH" [OF that] "1.prems" that by (simp add: list_all_iff)
  have nt: "(if auto_tabular opts then check_homogeneous place opts items else None) = None" for place
    using "1.prems" check_homogeneous_None [of "\<lambda>k. 0" opts items place] by auto
  have m: "map (\<lambda>(i, v). write_canon_value H (sub_layout A [i]) opts (Some v)) (enumerate 0 items) =
        map (\<lambda>(i, v). write_canon_value H (sub_layout B [i]) opts (Some v)) (enumerate 0 items)"
    by (rule map_cong [OF refl]) (auto dest!: enumerate_snd_in intro!: ih)
  show ?case
    unfolding write_canon_value.simps write_canon_list_def nt option.case m ..
next
  case (2 opts entries)
  have "write_canon_map (\<lambda>q v. write_canon_value H (sub_layout A q) opts (Some v)) entries =
        write_canon_map (\<lambda>q v. write_canon_value H (sub_layout B q) opts (Some v)) entries"
    by (rule write_canon_map_cong [OF refl]) (use 2 in \<open>auto simp: list_all_iff\<close>)
  then show ?case by simp
next
  case (3 opts tn flds)
  have "write_canon_map (\<lambda>q v. write_canon_value H (sub_layout A q) opts (Some v)) flds =
        write_canon_map (\<lambda>q v. write_canon_value H (sub_layout B q) opts (Some v)) flds"
    by (rule write_canon_map_cong [OF refl]) (use 3 in \<open>auto simp: list_all_iff\<close>)
  then show ?case by simp
next
  case (4 opts tag val)
  then show ?case by (cases val) auto
qed simp_all

text \<open>The entry sort of \<open>write_canon_map\<close> makes the key order immaterial: where no table is written,
  the canonical form of a Map or Struct with distinct keys is that of every permutation of
  its entries, whatever the layouts of the two calls.\<close>

lemma key_order_without_tables:
  assumes "distinct (map fst es)" "mset es' = mset es" "no_table opts (GMap es)"
  shows "write_canon_value H A opts (Some (GMap es')) = write_canon_value H B opts (Some (GMap es))"
    and "write_canon_value H A opts (Some (GStruct tn es')) = write_canon_value H B opts (Some (GStruct tn es))"
proof -
  have q: "qsort compare_entries es' = qsort compare_entries es"
    by (rule qsort_perm_distinct [OF assms(1,2)])
  have "write_canon_value H A opts (Some (GMap es')) = write_canon_value H A opts (Some (GMap es))"
    by (simp add: write_canon_map_def q)
  also have "\<dots> = write_canon_value H B opts (Some (GMap es))"
    by (rule canon_without_tables [OF assms(3)])
  finally show "write_canon_value H A opts (Some (GMap es')) = write_canon_value H B opts (Some (GMap es))" .
  have s: "no_table opts (GStruct tn es)" using assms(3) by simp
  have "write_canon_value H A opts (Some (GStruct tn es')) = write_canon_value H A opts (Some (GStruct tn es))"
    by (simp add: write_canon_map_def q)
  also have "\<dots> = write_canon_value H B opts (Some (GStruct tn es))"
    by (rule canon_without_tables [OF s])
  finally show "write_canon_value H A opts (Some (GStruct tn es')) =
      write_canon_value H B opts (Some (GStruct tn es))" .
qed


text \<open>Facts for evaluating the writer at concrete values.\<close>

lemmas canon_eval =
  write_canon_map_def write_canon_list_def write_tabular_def write_row_def check_homogeneous_def
  common_count_def in_all_def entry_has_key_def entries_or_none_def find_cell_def key_found_def
  qsort_def compare_entries_def compare_slots_def uc_def write_canon_string_def is_bare_safe_def
  isdigit_def isalnum_def write_quoted_string_def quoted_char_def show_long_def show_nat.simps
  digit_char_def canon_null_def glyph_canon_opts_default_def sample_host_def hex_digit_def
  is_ref_bare_safe_def layout_asc_def layout_desc_def sub_layout_def

text \<open>C1 at a Map that holds a table: a Map with the distinct keys \<open>x\<close> and \<open>y\<close>, the value
  of \<open>x\<close> being a list of three Maps with the keys \<open>a\<close> and \<open>b\<close>. Canonicalized under one
  layout and, with its entries swapped, under another, it gives two texts that differ in the
  order of the columns; and \<open>glyph_equal_loose\<close>, whose two calls have two layouts, can
  answer false for the Map and itself.\<close>

theorem nested_table_columns_by_address:
  "glyph_canonicalize_loose sample_host layout_asc
     (Some (GMap [(''x'', GList [GMap [(''a'', GInt 1), (''b'', GInt 2)], GMap [(''a'', GInt 1), (''b'', GInt 2)],
                                 GMap [(''a'', GInt 1), (''b'', GInt 2)]]), (''y'', GInt 7)])) =
     ''{x=@tab _ rows=3 cols=2 [a b]'' @ [CHR 0x0A] @ ''|1|2|'' @ [CHR 0x0A] @ ''|1|2|'' @ [CHR 0x0A] @
     ''|1|2|'' @ [CHR 0x0A] @ ''@end y=7}'' \<and>
   glyph_canonicalize_loose sample_host layout_desc
     (Some (GMap [(''y'', GInt 7), (''x'', GList [GMap [(''a'', GInt 1), (''b'', GInt 2)], GMap [(''a'', GInt 1), (''b'', GInt 2)],
                                 GMap [(''a'', GInt 1), (''b'', GInt 2)]])])) =
     ''{x=@tab _ rows=3 cols=2 [b a]'' @ [CHR 0x0A] @ ''|2|1|'' @ [CHR 0x0A] @ ''|2|1|'' @ [CHR 0x0A] @
     ''|2|1|'' @ [CHR 0x0A] @ ''@end y=7}'' \<and>
   \<not> glyph_equal_loose sample_host layout_asc layout_desc
     (Some (GMap [(''x'', GList [GMap [(''a'', GInt 1), (''b'', GInt 2)], GMap [(''a'', GInt 1), (''b'', GInt 2)],
                                 GMap [(''a'', GInt 1), (''b'', GInt 2)]]), (''y'', GInt 7)]))
     (Some (GMap [(''x'', GList [GMap [(''a'', GInt 1), (''b'', GInt 2)], GMap [(''a'', GInt 1), (''b'', GInt 2)],
                                 GMap [(''a'', GInt 1), (''b'', GInt 2)]]), (''y'', GInt 7)]))"
  by (simp add: glyph_equal_loose_def glyph_canonicalize_loose_def
      glyph_canonicalize_loose_with_opts_def canon_eval)

subsection \<open>Keys set more than once\<close>

text \<open>The Map left by a sequence of \<open>glyph_map_set\<close> calls on a new Map, one call for each
  pair of a key and a value, in order.\<close>

definition map_of_sets :: "(string \<times> glyph_value) list \<Rightarrow> glyph_value option" where
  "map_of_sets kvs =
     foldl (\<lambda>m kv. glyph_map_set m (Some (fst kv)) (Some (snd kv))) glyph_map_new kvs"

lemma foldl_map_set:
  "foldl (\<lambda>m kv. glyph_map_set m (Some (fst kv)) (Some (snd kv))) (Some (GMap es)) kvs =
   Some (GMap (es @ kvs))"
  by (induction kvs arbitrary: es) auto

lemma map_of_sets_entries: "map_of_sets kvs = Some (GMap kvs)"
  unfolding map_of_sets_def glyph_map_new_def by (simp add: foldl_map_set)

text \<open>Setting the key \<open>a\<close> twice leaves two entries, and both are written: the output
  differs from that of the Map holding only the later binding.\<close>

theorem duplicate_key_emitted_twice:
  "glyph_canonicalize_loose sample_host layout_asc (map_of_sets [(''a'', GInt 1), (''a'', GInt 2)]) = ''{a=1 a=2}'' \<and>
   glyph_canonicalize_loose sample_host layout_asc (map_of_sets [(''a'', GInt 2)]) = ''{a=2}'' \<and>
   glyph_canonicalize_loose sample_host layout_asc (map_of_sets [(''a'', GInt 1), (''a'', GInt 2)]) \<noteq>
   glyph_canonicalize_loose sample_host layout_asc (map_of_sets [(''a'', GInt 2)])"
  by (simp add: map_of_sets_entries glyph_canonicalize_loose_def
      glyph_canonicalize_loose_with_opts_def canon_eval)

text \<open>C7, as the code has it: \<open>glyph_map_set\<close> appends, so the Map holds one entry for
  each call. The canonical output is that of an arrangement \<open>es\<close> of exactly these entries
  (each as often as it was set, so a key once when the keys set are pairwise distinct) in
  which the keys ascend in \<open>strcmp\<close> order: an opening brace, for every entry of \<open>es\<close> the
  key, an equals sign and the canonical form of the value, separated by single spaces, and a
  closing brace. Nothing is said of the order that entries with equal keys have among
  themselves.\<close>

theorem map_set_entries_in_key_order:
  "map_of_sets kvs = Some (GMap kvs) \<and>
   (\<exists>es. mset es = mset kvs \<and>
         sorted_wrt (\<lambda>a b. strcmp (fst a) (fst b) \<le> 0) es \<and>
         write_canon_value H A opts (map_of_sets kvs) =
           ''{'' @ join_sp (map (\<lambda>(i, e). write_canon_string (fst e) @ ''='' @
                                   write_canon_value H (sub_layout A [i]) opts (Some (snd e)))
                               (enumerate 0 es)) @ ''}'')"
proof -
  have s: "sorted_wrt (\<lambda>a b. strcmp (fst a) (fst b) \<le> 0) (qsort compare_entries kvs)"
    using sorted_qsort [of kvs] by (simp add: entry_le_def [abs_def] compare_entries_def)
  show ?thesis
    by (intro conjI exI [of _ "qsort compare_entries kvs"] s)
       (simp_all add: map_of_sets_entries mset_qsort write_canon_map_def)
qed

lemma two_entries:
  assumes "mset es = mset [x, y]"
  shows "es = [x, y] \<or> es = [y, x]"
proof -
  from assms have "length es = 2"
    by (metis length_Cons list.size(3) mset_eq_length numeral_2_eq_2)
  then obtain p q where es: "es = [p, q]"
    by (metis (no_types, opaque_lifting) length_0_conv length_Suc_conv numeral_2_eq_2)
  from assms show ?thesis unfolding es by (auto simp: add_eq_conv_ex)
qed

text \<open>The keys \<open>b\<close> and \<open>a\<close> set in this order are written in key order; the key \<open>a\<close> set
  twice is written twice.\<close>

theorem map_set_entries_in_key_order_witness:
  "map_of_sets [(''b'', GInt 1), (''a'', GInt 2)] = Some (GMap [(''b'', GInt 1), (''a'', GInt 2)]) \<and>
   write_canon_value sample_host layout_asc glyph_canon_opts_default
     (map_of_sets [(''b'', GInt 1), (''a'', GInt 2)]) = ''{a=2 b=1}'' \<and>
   (write_canon_value sample_host layout_asc glyph_canon_opts_default
      (map_of_sets [(''a'', GInt 1), (''a'', GInt 2)]) = ''{a=1 a=2}'' \<or>
    write_canon_value sample_host layout_asc glyph_canon_opts_default
      (map_of_sets [(''a'', GInt 1), (''a'', GInt 2)]) = ''{a=2 a=1}'')"
proof -
  note t1 = map_set_entries_in_key_order [of "[(''b'', GInt 1), (''a'', GInt 2)]"
      sample_host layout_asc glyph_canon_opts_default]
  note t2 = map_set_entries_in_key_order [of "[(''a'', GInt 1), (''a'', GInt 2)]"
      sample_host layout_asc glyph_canon_opts_default]
  from t1 obtain es where es: "mset es = mset [(''b'', GInt 1), (''a'', GInt (2 :: 64 word))]"
      "sorted_wrt (\<lambda>a b. strcmp (fst a) (fst b) \<le> 0) es"
    and out: "write_canon_value sample_host layout_asc glyph_canon_opts_default
        (map_of_sets [(''b'', GInt 1), (''a'', GInt 2)]) =
      ''{'' @ join_sp (map (\<lambda>(i, e). write_canon_string (fst e) @ ''='' @
            write_canon_value sample_host (sub_layout layout_asc [i]) glyph_canon_opts_default (Some (snd e)))
          (enumerate 0 es)) @ ''}''"
    by (elim conjE exE)
  from two_entries [OF es(1)] es(2) have "es = [(''a'', GInt 2), (''b'', GInt 1)]"
    by (auto simp: uc_def)
  then have c1: "write_canon_value sample_host layout_asc glyph_canon_opts_default
        (map_of_sets [(''b'', GInt 1), (''a'', GInt 2)]) = ''{a=2 b=1}''"
    unfolding out by (simp add: canon_eval)
  from t2 obtain ds where ds: "mset ds = mset [(''a'', GInt 1), (''a'', GInt (2 :: 64 word))]"
    and out2: "write_canon_value sample_host layout_asc glyph_canon_opts_default
        (map_of_sets [(''a'', GInt 1), (''a'', GInt 2)]) =
      ''{'' @ join_sp (map (\<lambda>(i, e). write_canon_string (fst e) @ ''='' @
            write_canon_value sample_host (sub_layout layout_asc [i]) glyph_canon_opts_default (Some (snd e)))
          (enumerate 0 ds)) @ ''}''"
    by (elim conjE exE)
  from two_entries [OF ds] have c2: "write_canon_value sample_host layout_asc glyph_canon_opts_default
      (map_of_sets [(''a'', GInt 1), (''a'', GInt 2)]) = ''{a=1 a=2}'' \<or>
    write_canon_value sample_host layout_asc glyph_canon_opts_default
      (map_of_sets [(''a'', GInt 1), (''a'', GInt 2)]) = ''{a=2 a=1}''"
  proof
    assume d: "ds = [(''a'', GInt 1), (''a'', GInt 2)]"
    show ?thesis by (rule disjI1, unfold out2 d) (simp add: canon_eval)
  next
    assume d: "ds = [(''a'', GInt 2), (''a'', GInt 1)]"
    show ?thesis by (rule disjI2, unfold out2 d) (simp add: canon_eval)
  qed
  from t1 have c0: "map_of_sets [(''b'', GInt 1), (''a'', GInt 2)] = Some (GMap [(''b'', GInt 1), (''a'', GInt 2)])"
    by (rule conjunct1)
  show ?thesis using c0 c1 c2 by (intro conjI)
qed

subsection \<open>The tabular threshold\<close>

text \<open>The notions of the specification's tabular rule: an object is a Map or a Struct; the
  column set of a list is the union of the keys of its elements; a key is common when every
  element has it.\<close>

definition is_object :: "glyph_value \<Rightarrow> bool" where
  "is_object item = (item_entries item \<noteq> None)"

definition keys_of :: "glyph_value \<Rightarrow> string set" where
  "keys_of item = fst ` set (entries_or_none item)"

definition key_union :: "glyph_value list \<Rightarrow> string set" where
  "key_union items = (\<Union>item \<in> set items. keys_of item)"

definition common_keys :: "glyph_value list \<Rightarrow> string set" where
  "common_keys items = {k \<in> key_union items. \<forall>item \<in> set items. k \<in> keys_of item}"

lemma key_found_iff: "key_found key all_keys \<longleftrightarrow> key \<in> set all_keys"
  by (auto simp: key_found_def list_ex_iff)

lemma collect_entry_keys_set:
  "set (collect_entry_keys es acc) = set acc \<union> fst ` set es"
  by (induction es arbitrary: acc) (auto simp: key_found_iff)

lemma collect_entry_keys_distinct:
  "distinct acc \<Longrightarrow> distinct (collect_entry_keys es acc)"
  by (induction es arbitrary: acc) (auto simp: key_found_iff)

lemma collect_all_keys_objects:
  "list_all is_object items \<Longrightarrow>
   \<exists>ak. collect_all_keys items acc = Some ak \<and> set ak = set acc \<union> key_union items \<and>
        (distinct acc \<longrightarrow> distinct ak)"
proof (induction items arbitrary: acc)
  case Nil
  then show ?case by (simp add: key_union_def)
next
  case (Cons item items)
  from Cons.prems obtain es where es: "item_entries item = Some es"
    by (auto simp: is_object_def)
  from Cons.prems have "list_all is_object items" by simp
  from Cons.IH [OF this, of "collect_entry_keys es acc"]
  obtain ak where ak: "collect_all_keys items (collect_entry_keys es acc) = Some ak"
    "set ak = set (collect_entry_keys es acc) \<union> key_union items"
    "distinct (collect_entry_keys es acc) \<longrightarrow> distinct ak"
    by blast
  have "keys_of item = fst ` set es"
    by (simp add: keys_of_def entries_or_none_def es)
  with ak es show ?case
    by (auto simp: collect_entry_keys_set collect_entry_keys_distinct key_union_def)
qed

lemma collect_all_keys_Some_objects:
  "collect_all_keys items acc = Some ak \<Longrightarrow> list_all is_object items"
  by (induction items arbitrary: acc) (auto simp: is_object_def split: option.splits)

lemma in_all_iff: "in_all items k \<longleftrightarrow> (\<forall>item \<in> set items. k \<in> keys_of item)"
  by (auto simp: in_all_def entry_has_key_def keys_of_def list_all_iff list_ex_iff)

lemma common_count_card:
  assumes "distinct ak" "set ak = key_union items"
  shows "common_count items ak = card (common_keys items)"
proof -
  have "{k. in_all items k} \<inter> set ak = common_keys items"
    using assms(2) by (auto simp: common_keys_def in_all_iff)
  then show ?thesis
    unfolding common_count_def using distinct_length_filter [OF assms(1), of "in_all items"]
    by simp
qed

lemma check_homogeneous_objects:
  assumes "list_all is_object items"
  shows "\<exists>ak. distinct ak \<and> set ak = key_union items \<and>
     check_homogeneous place opts items =
       (if length items < min_rows opts then None
        else if card (key_union items) = 0 \<or> card (key_union items) > max_cols opts then None
        else if card (common_keys items) * 2 < card (key_union items) then None
        else Some (qsort (compare_slots place) ak))"
proof -
  from collect_all_keys_objects [OF assms, of "[]"]
  obtain ak where ak: "collect_all_keys items [] = Some ak" "set ak = key_union items" "distinct ak"
    by auto
  have len: "length ak = card (key_union items)"
    using ak(2,3) by (metis distinct_card)
  have cc: "common_count items ak = card (common_keys items)"
    using ak by (simp add: common_count_card)
  show ?thesis
    using ak len cc by (intro exI [of _ ak]) (simp add: check_homogeneous_def)
qed

lemma write_tabular_shape:
  "prefix ''@tab '' (write_tabular wr opts items cols) \<and>
   suffix ''@end'' (write_tabular wr opts items cols)"
  unfolding write_tabular_def by (simp add: suffix_def)

text \<open>C2: under the default options, a list of at least 3 elements, all Maps or Structs,
  in which every key of the column set is common, the column set being non-empty and of at
  most 64 keys, is written as a text that begins with \<open>@tab\<close> and a space and ends with
  \<open>@end\<close>; a list of fewer than 3 elements, or one whose common keys are fewer than half
  of the column set, is written as a text that begins with an opening bracket. Both hold
  under every column layout.\<close>

theorem tabular_threshold:
  "(3 \<le> length items \<and> list_all is_object items \<and> common_keys items = key_union items \<and>
    key_union items \<noteq> {} \<and> card (key_union items) \<le> 64
    \<longrightarrow> prefix ''@tab '' (glyph_canonicalize_loose H A (Some (GList items))) \<and>
        suffix ''@end'' (glyph_canonicalize_loose H A (Some (GList items)))) \<and>
   (length items < 3 \<or> 2 * card (common_keys items) < card (key_union items)
    \<longrightarrow> prefix ''['' (glyph_canonicalize_loose H A (Some (GList items))))"
proof (intro conjI impI)
  assume a: "3 \<le> length items \<and> list_all is_object items \<and> common_keys items = key_union items \<and>
    key_union items \<noteq> {} \<and> card (key_union items) \<le> 64"
  then have obj: "list_all is_object items" by simp
  have fin: "finite (key_union items)"
    by (simp add: key_union_def keys_of_def)
  with a have pos: "card (key_union items) \<noteq> 0" by simp
  from check_homogeneous_objects [OF obj, of "A []" glyph_canon_opts_default] a pos
  obtain ak where "check_homogeneous (A []) glyph_canon_opts_default items =
      Some (qsort (compare_slots (A [])) ak)"
    by (auto simp: glyph_canon_opts_default_def)
  then have out: "glyph_canonicalize_loose H A (Some (GList items)) =
      write_tabular (\<lambda>q v. write_canon_value H (sub_layout A q) glyph_canon_opts_default (Some v))
        glyph_canon_opts_default items (qsort (compare_slots (A [])) ak)"
    by (simp add: glyph_canonicalize_loose_def glyph_canonicalize_loose_with_opts_def
        write_canon_list_def glyph_canon_opts_default_def)
  show "prefix ''@tab '' (glyph_canonicalize_loose H A (Some (GList items)))"
    unfolding out using write_tabular_shape by blast
  show "suffix ''@end'' (glyph_canonicalize_loose H A (Some (GList items)))"
    unfolding out using write_tabular_shape by blast
next
  assume b: "length items < 3 \<or> 2 * card (common_keys items) < card (key_union items)"
  have "check_homogeneous (A []) glyph_canon_opts_default items = None"
  proof (cases "list_all is_object items")
    case True
    from check_homogeneous_objects [OF True, of "A []" glyph_canon_opts_default] b
    show ?thesis by (auto simp: glyph_canon_opts_default_def mult.commute)
  next
    case False
    then have "collect_all_keys items [] = None"
      using collect_all_keys_Some_objects [of items "[]"] by (cases "collect_all_keys items []") auto
    then show ?thesis by (simp add: check_homogeneous_def)
  qed
  then show "prefix ''['' (glyph_canonicalize_loose H A (Some (GList items)))"
    by (simp add: glyph_canonicalize_loose_def glyph_canonicalize_loose_with_opts_def
        write_canon_list_def)
qed

lemma keys_of_simps:
  "keys_of (GMap es) = set (map fst es)" "keys_of (GStruct tn es) = set (map fst es)"
  by (simp_all add: keys_of_def entries_or_none_def)

lemma key_union_simps:
  "key_union [] = {}" "key_union (item # items) = keys_of item \<union> key_union items"
  by (simp_all add: key_union_def)

text \<open>Scenario 7 of the specification with a Struct as second row, a list of two objects,
  and scenario 8.\<close>

theorem tabular_threshold_witness:
  "3 \<le> length [GMap [(''x'', GInt 0), (''y'', GInt 0)], GStruct (Some ''P'') [(''y'', GInt 2), (''x'', GInt 1)],
               GMap [(''x'', GInt 2), (''y'', GInt 4)]] \<and>
   list_all is_object [GMap [(''x'', GInt 0), (''y'', GInt 0)], GStruct (Some ''P'') [(''y'', GInt 2), (''x'', GInt 1)],
               GMap [(''x'', GInt 2), (''y'', GInt 4)]] \<and>
   common_keys [GMap [(''x'', GInt 0), (''y'', GInt 0)], GStruct (Some ''P'') [(''y'', GInt 2), (''x'', GInt 1)],
               GMap [(''x'', GInt 2), (''y'', GInt 4)]] = {''x'', ''y''} \<and>
   key_union [GMap [(''x'', GInt 0), (''y'', GInt 0)], GStruct (Some ''P'') [(''y'', GInt 2), (''x'', GInt 1)],
               GMap [(''x'', GInt 2), (''y'', GInt 4)]] = {''x'', ''y''} \<and>
   prefix ''@tab '' (glyph_canonicalize_loose sample_host layout_desc
     (Some (GList [GMap [(''x'', GInt 0), (''y'', GInt 0)], GStruct (Some ''P'') [(''y'', GInt 2), (''x'', GInt 1)],
               GMap [(''x'', GInt 2), (''y'', GInt 4)]]))) \<and>
   suffix ''@end'' (glyph_canonicalize_loose sample_host layout_desc
     (Some (GList [GMap [(''x'', GInt 0), (''y'', GInt 0)], GStruct (Some ''P'') [(''y'', GInt 2), (''x'', GInt 1)],
               GMap [(''x'', GInt 2), (''y'', GInt 4)]]))) \<and>
   length [GMap [(''x'', GInt 0)], GMap [(''x'', GInt 1)]] < 3 \<and>
   prefix ''['' (glyph_canonicalize_loose sample_host layout_desc (Some (GList [GMap [(''x'', GInt 0)], GMap [(''x'', GInt 1)]]))) \<and>
   common_keys [GMap [(''a'', GInt 1)], GMap [(''b'', GInt 2)], GMap [(''c'', GInt 3)]] = {} \<and>
   key_union [GMap [(''a'', GInt 1)], GMap [(''b'', GInt 2)], GMap [(''c'', GInt 3)]] = {''a'', ''b'', ''c''} \<and>
   prefix ''['' (glyph_canonicalize_loose sample_host layout_desc
     (Some (GList [GMap [(''a'', GInt 1)], GMap [(''b'', GInt 2)], GMap [(''c'', GInt 3)]])))"
proof -
  define L where "L = [GMap [(''x'', GInt 0), (''y'', GInt 0)], GStruct (Some ''P'') [(''y'', GInt 2), (''x'', GInt 1)],
               GMap [(''x'', GInt 2), (''y'', GInt 4)]]"
  define S where "S = [GMap [(''a'', GInt 1)], GMap [(''b'', GInt 2)], GMap [(''c'', GInt 3)]]"
  define T where "T = [GMap [(''x'', GInt 0)], GMap [(''x'', GInt 1)]]"
  have ku: "key_union L = {''x'', ''y''}"
    unfolding L_def by (simp add: key_union_simps keys_of_simps) blast
  have ck: "common_keys L = {''x'', ''y''}"
    unfolding common_keys_def ku unfolding L_def by (simp add: keys_of_simps) blast
  have l: "3 \<le> length L" "list_all is_object L"
    unfolding L_def by (simp_all add: is_object_def)
  have c: "card (key_union L) \<le> 64" "key_union L \<noteq> {}" unfolding ku by simp_all
  have kus: "key_union S = {''a'', ''b'', ''c''}"
    unfolding S_def by (simp add: key_union_simps keys_of_simps) blast
  have cks: "common_keys S = {}"
    unfolding common_keys_def kus unfolding S_def by (simp add: keys_of_simps)
  have s: "2 * card (common_keys S) < card (key_union S)" unfolding kus cks by simp
  have t: "length T < 3" unfolding T_def by simp
  from tabular_threshold [of L sample_host layout_desc] tabular_threshold [of S sample_host layout_desc]
    tabular_threshold [of T sample_host layout_desc] ku ck l c kus cks s t
  show ?thesis unfolding L_def S_def T_def by simp
qed
subsection \<open>The option \<open>allow_missing\<close>\<close>

lemma find_cell_map_of: "find_cell es c = map_of es c"
  by (induction es) (auto simp: find_cell_def)

lemma distinct_qsort: "distinct (qsort cmp xs) = distinct xs"
  using mset_qsort [of cmp xs] by (metis mset_eq_imp_distinct_iff)

text \<open>With \<open>allow_missing\<close> false, a list whose third element lacks the key \<open>b\<close> is still
  written as a table, the absent cell as the null glyph.\<close>

theorem missing_cell_despite_allow_missing_false:
  "write_canon_value sample_host layout_asc (glyph_canon_opts_default\<lparr>allow_missing := False\<rparr>)
     (Some (GList [GMap [(''a'', GInt 1), (''b'', GInt 2)], GMap [(''a'', GInt 1), (''b'', GInt 2)],
                   GMap [(''a'', GInt 3)]])) =
   ''@tab _ rows=3 cols=2 [a b]'' @ [CHR 0x0A] @ ''|1|2|'' @ [CHR 0x0A] @ ''|1|2|'' @ [CHR 0x0A] @
   ''|3|_|'' @ [CHR 0x0A] @ ''@end''"
  by (simp add: canon_eval)

text \<open>C3, as the code has it: no function reads \<open>allow_missing\<close>. With \<open>auto_tabular\<close> set,
  and \<open>allow_missing\<close> set to either value \<open>b\<close>, a list is written as a table exactly when it
  has at least \<open>min_rows\<close> elements, all of them Maps or Structs, its column set is not empty
  and has at most \<open>max_cols\<close> keys, and at least half of these are common to all elements. The
  table has the columns in some order \<open>cols\<close>, and in the row of an element the cell of a
  column is the value the element has at that key, or the null glyph when it has none.
  Every other list is written in brackets.\<close>

theorem table_fills_missing_cells:
  assumes "auto_tabular opts"
  shows
    "if min_rows opts \<le> length items \<and> list_all is_object items \<and> key_union items \<noteq> {} \<and>
        card (key_union items) \<le> max_cols opts \<and>
        card (key_union items) \<le> 2 * card (common_keys items)
     then \<exists>cols. distinct cols \<and> set cols = key_union items \<and>
            write_canon_value H A (opts\<lparr>allow_missing := b\<rparr>) (Some (GList items)) =
              ''@tab _ rows='' @ show_nat (length items) @ '' cols='' @
              show_nat (card (key_union items)) @ '' ['' @
              join_sp (map write_canon_string cols) @ '']'' @ [CHR 0x0A] @
              concat (map (\<lambda>(i, item).
                  ''|'' @
                  concat (map (\<lambda>(j, c).
                      (case map_of (entries_or_none item) c of
                         Some v \<Rightarrow> write_canon_value H (sub_layout A [i, j])
                                     (opts\<lparr>allow_missing := b\<rparr>) (Some v)
                       | None \<Rightarrow> canon_null (null_style opts)) @ ''|'')
                    (enumerate 0 cols)) @
                  [CHR 0x0A])
                (enumerate 0 items)) @
              ''@end''
     else write_canon_value H A (opts\<lparr>allow_missing := b\<rparr>) (Some (GList items)) =
            ''['' @ join_sp (map (\<lambda>(i, v). write_canon_value H (sub_layout A [i])
                                              (opts\<lparr>allow_missing := b\<rparr>) (Some v))
                               (enumerate 0 items)) @ '']''"
proof (cases "list_all is_object items")
  case True
  have fin: "finite (key_union items)"
    by (simp add: key_union_def keys_of_def)
  from check_homogeneous_objects [OF True, of "A []" "opts\<lparr>allow_missing := b\<rparr>"]
  obtain ak where ak: "distinct ak" "set ak = key_union items"
    and ch: "check_homogeneous (A []) (opts\<lparr>allow_missing := b\<rparr>) items =
       (if length items < min_rows opts then None
        else if card (key_union items) = 0 \<or> card (key_union items) > max_cols opts then None
        else if card (common_keys items) * 2 < card (key_union items) then None
        else Some (qsort (compare_slots (A [])) ak))"
    by auto
  show ?thesis
  proof (cases "min_rows opts \<le> length items \<and> key_union items \<noteq> {} \<and>
        card (key_union items) \<le> max_cols opts \<and>
        card (key_union items) \<le> 2 * card (common_keys items)")
    case c: True
    let ?cols = "qsort (compare_slots (A [])) ak"
    have d: "distinct ?cols" "set ?cols = key_union items"
      using ak by (simp_all add: distinct_qsort set_qsort)
    have len: "length ?cols = card (key_union items)"
      using d by (metis distinct_card)
    from c fin have "check_homogeneous (A []) (opts\<lparr>allow_missing := b\<rparr>) items = Some ?cols"
      unfolding ch by (auto simp: mult.commute)
    then have "write_canon_value H A (opts\<lparr>allow_missing := b\<rparr>) (Some (GList items)) =
        write_tabular (\<lambda>q v. write_canon_value H (sub_layout A q) (opts\<lparr>allow_missing := b\<rparr>) (Some v))
          (opts\<lparr>allow_missing := b\<rparr>) items ?cols"
      using assms by (simp add: write_canon_list_def)
    then have out: "write_canon_value H A (opts\<lparr>allow_missing := b\<rparr>) (Some (GList items)) =
              ''@tab _ rows='' @ show_nat (length items) @ '' cols='' @
              show_nat (card (key_union items)) @ '' ['' @
              join_sp (map write_canon_string ?cols) @ '']'' @ [CHR 0x0A] @
              concat (map (\<lambda>(i, item).
                  ''|'' @
                  concat (map (\<lambda>(j, c).
                      (case map_of (entries_or_none item) c of
                         Some v \<Rightarrow> write_canon_value H (sub_layout A [i, j])
                                     (opts\<lparr>allow_missing := b\<rparr>) (Some v)
                       | None \<Rightarrow> canon_null (null_style opts)) @ ''|'')
                    (enumerate 0 ?cols)) @
                  [CHR 0x0A])
                (enumerate 0 items)) @
              ''@end''"
      by (simp add: write_tabular_def write_row_def find_cell_map_of len cong: option.case_cong)
    have cond: "min_rows opts \<le> length items \<and> list_all is_object items \<and> key_union items \<noteq> {} \<and>
        card (key_union items) \<le> max_cols opts \<and>
        card (key_union items) \<le> 2 * card (common_keys items)"
      using True c by blast
    show ?thesis
      unfolding if_P [OF cond] using d out by (intro exI [of _ ?cols] conjI)
  next
    case c: False
    with fin have "check_homogeneous (A []) (opts\<lparr>allow_missing := b\<rparr>) items = None"
      unfolding ch by (auto simp: not_le mult.commute)
    then have out: "write_canon_value H A (opts\<lparr>allow_missing := b\<rparr>) (Some (GList items)) =
            ''['' @ join_sp (map (\<lambda>(i, v). write_canon_value H (sub_layout A [i])
                                              (opts\<lparr>allow_missing := b\<rparr>) (Some v))
                               (enumerate 0 items)) @ '']''"
      by (simp add: write_canon_list_def)
    have ncond: "\<not> (min_rows opts \<le> length items \<and> list_all is_object items \<and> key_union items \<noteq> {} \<and>
        card (key_union items) \<le> max_cols opts \<and>
        card (key_union items) \<le> 2 * card (common_keys items))"
      using c by blast
    show ?thesis
      unfolding if_not_P [OF ncond] by (rule out)
  qed
next
  case False
  then have "collect_all_keys items [] = None"
    using collect_all_keys_Some_objects [of items "[]"] by (cases "collect_all_keys items []") auto
  then have "check_homogeneous (A []) (opts\<lparr>allow_missing := b\<rparr>) items = None"
    by (simp add: check_homogeneous_def)
  then have out: "write_canon_value H A (opts\<lparr>allow_missing := b\<rparr>) (Some (GList items)) =
            ''['' @ join_sp (map (\<lambda>(i, v). write_canon_value H (sub_layout A [i])
                                              (opts\<lparr>allow_missing := b\<rparr>) (Some v))
                               (enumerate 0 items)) @ '']''"
    by (simp add: write_canon_list_def)
  have ncond: "\<not> (min_rows opts \<le> length items \<and> list_all is_object items \<and> key_union items \<noteq> {} \<and>
        card (key_union items) \<le> max_cols opts \<and>
        card (key_union items) \<le> 2 * card (common_keys items))"
    using False by blast
  show ?thesis
    unfolding if_not_P [OF ncond] by (rule out)
qed

lemma two_columns:
  assumes "distinct cols" "set cols = {x, y}" "x \<noteq> y"
  shows "cols = [x, y] \<or> cols = [y, x]"
proof -
  from assms have "length cols = 2"
    by (metis card_2_iff distinct_card)
  then obtain p q where c: "cols = [p, q]"
    by (metis (no_types, opaque_lifting) length_0_conv length_Suc_conv numeral_2_eq_2)
  from assms(2,3) show ?thesis unfolding c by (auto simp: doubleton_eq_iff)
qed

text \<open>The list above with \<open>allow_missing\<close> false: whatever the order of its two columns, it
  is written as a table with a null glyph in the third row; and a list without a common key,
  written in brackets.\<close>

theorem table_fills_missing_cells_witness:
  "auto_tabular glyph_canon_opts_default \<and>
   key_union [GMap [(''a'', GInt 1), (''b'', GInt 2)], GMap [(''a'', GInt 1), (''b'', GInt 2)],
              GMap [(''a'', GInt 3)]] = {''a'', ''b''} \<and>
   common_keys [GMap [(''a'', GInt 1), (''b'', GInt 2)], GMap [(''a'', GInt 1), (''b'', GInt 2)],
                GMap [(''a'', GInt 3)]] = {''a''} \<and>
   (write_canon_value sample_host layout_desc (glyph_canon_opts_default\<lparr>allow_missing := False\<rparr>)
      (Some (GList [GMap [(''a'', GInt 1), (''b'', GInt 2)], GMap [(''a'', GInt 1), (''b'', GInt 2)],
                    GMap [(''a'', GInt 3)]])) =
      ''@tab _ rows=3 cols=2 [a b]'' @ [CHR 0x0A] @ ''|1|2|'' @ [CHR 0x0A] @ ''|1|2|'' @ [CHR 0x0A] @
      ''|3|_|'' @ [CHR 0x0A] @ ''@end'' \<or>
    write_canon_value sample_host layout_desc (glyph_canon_opts_default\<lparr>allow_missing := False\<rparr>)
      (Some (GList [GMap [(''a'', GInt 1), (''b'', GInt 2)], GMap [(''a'', GInt 1), (''b'', GInt 2)],
                    GMap [(''a'', GInt 3)]])) =
      ''@tab _ rows=3 cols=2 [b a]'' @ [CHR 0x0A] @ ''|2|1|'' @ [CHR 0x0A] @ ''|2|1|'' @ [CHR 0x0A] @
      ''|_|3|'' @ [CHR 0x0A] @ ''@end'') \<and>
   common_keys [GMap [(''a'', GInt 1)], GMap [(''b'', GInt 2)], GMap [(''c'', GInt 3)]] = {} \<and>
   key_union [GMap [(''a'', GInt 1)], GMap [(''b'', GInt 2)], GMap [(''c'', GInt 3)]] = {''a'', ''b'', ''c''} \<and>
   write_canon_value sample_host layout_desc (glyph_canon_opts_default\<lparr>allow_missing := False\<rparr>)
      (Some (GList [GMap [(''a'', GInt 1)], GMap [(''b'', GInt 2)], GMap [(''c'', GInt 3)]])) =
      ''[{a=1} {b=2} {c=3}]''"
proof -
  define L where "L = [GMap [(''a'', GInt 1), (''b'', GInt 2)], GMap [(''a'', GInt 1), (''b'', GInt 2)],
              GMap [(''a'', GInt 3)]]"
  define S where "S = [GMap [(''a'', GInt 1)], GMap [(''b'', GInt 2)], GMap [(''c'', GInt 3)]]"
  define Q where "Q = glyph_canon_opts_default\<lparr>allow_missing := False\<rparr>"
  have at: "auto_tabular glyph_canon_opts_default"
    by (simp add: glyph_canon_opts_default_def)
  have ku: "key_union L = {''a'', ''b''}"
    unfolding L_def by (auto simp: key_union_simps keys_of_simps)
  have ck: "common_keys L = {''a''}"
    unfolding common_keys_def ku unfolding L_def by (auto simp: keys_of_simps)
  have kus: "key_union S = {''a'', ''b'', ''c''}"
    unfolding S_def by (auto simp: key_union_simps keys_of_simps)
  have cks: "common_keys S = {}"
    unfolding common_keys_def kus unfolding S_def by (simp add: keys_of_simps)
  have condL: "min_rows glyph_canon_opts_default \<le> length L \<and> list_all is_object L \<and>
      key_union L \<noteq> {} \<and> card (key_union L) \<le> max_cols glyph_canon_opts_default \<and>
      card (key_union L) \<le> 2 * card (common_keys L)"
    unfolding ku ck unfolding L_def by (simp add: glyph_canon_opts_default_def is_object_def)
  have condS: "\<not> (min_rows glyph_canon_opts_default \<le> length S \<and> list_all is_object S \<and>
      key_union S \<noteq> {} \<and> card (key_union S) \<le> max_cols glyph_canon_opts_default \<and>
      card (key_union S) \<le> 2 * card (common_keys S))"
    unfolding kus cks by simp
  from table_fills_missing_cells [OF at, of L sample_host layout_desc False, unfolded if_P [OF condL]]
  obtain cols where cols: "distinct cols" "set cols = {''a'', ''b''}"
    and out: "write_canon_value sample_host layout_desc Q (Some (GList L)) =
              ''@tab _ rows='' @ show_nat (length L) @ '' cols='' @
              show_nat (card {''a'', ''b''}) @ '' ['' @
              join_sp (map write_canon_string cols) @ '']'' @ [CHR 0x0A] @
              concat (map (\<lambda>(i, item).
                  ''|'' @
                  concat (map (\<lambda>(j, c).
                      (case map_of (entries_or_none item) c of
                         Some v \<Rightarrow> write_canon_value sample_host (sub_layout layout_desc [i, j]) Q (Some v)
                       | None \<Rightarrow> canon_null (null_style glyph_canon_opts_default)) @ ''|'')
                    (enumerate 0 cols)) @
                  [CHR 0x0A])
                (enumerate 0 L)) @
              ''@end''"
    unfolding ku Q_def [symmetric] by (elim exE conjE)
  from two_columns [OF cols] have "cols = [''a'', ''b''] \<or> cols = [''b'', ''a'']" by simp
  then have tab: "write_canon_value sample_host layout_desc Q (Some (GList L)) =
      ''@tab _ rows=3 cols=2 [a b]'' @ [CHR 0x0A] @ ''|1|2|'' @ [CHR 0x0A] @ ''|1|2|'' @ [CHR 0x0A] @
      ''|3|_|'' @ [CHR 0x0A] @ ''@end'' \<or>
    write_canon_value sample_host layout_desc Q (Some (GList L)) =
      ''@tab _ rows=3 cols=2 [b a]'' @ [CHR 0x0A] @ ''|2|1|'' @ [CHR 0x0A] @ ''|2|1|'' @ [CHR 0x0A] @
      ''|_|3|'' @ [CHR 0x0A] @ ''@end''"
  proof
    assume c: "cols = [''a'', ''b'']"
    show ?thesis
      by (rule disjI1, unfold out c, unfold L_def) (simp add: canon_eval)
  next
    assume c: "cols = [''b'', ''a'']"
    show ?thesis
      by (rule disjI2, unfold out c, unfold L_def) (simp add: canon_eval)
  qed
  from table_fills_missing_cells [OF at, of S sample_host layout_desc False, unfolded if_not_P [OF condS]]
  have "write_canon_value sample_host layout_desc Q (Some (GList S)) =
      ''['' @ join_sp (map (\<lambda>(i, v). write_canon_value sample_host (sub_layout layout_desc [i]) Q (Some v))
                         (enumerate 0 S)) @ '']''"
    unfolding Q_def [symmetric] .
  then have br: "write_canon_value sample_host layout_desc Q (Some (GList S)) = ''[{a=1} {b=2} {c=3}]''"
    unfolding S_def by (simp add: canon_eval)
  show ?thesis
    using at ku ck tab cks kus br unfolding L_def S_def Q_def by (intro conjI)
qed

subsection \<open>Malformed input\<close>

text \<open>Well-formed JSON, after RFC 8259: white space is space, tab, line feed and carriage
  return; a string body is made of characters from 0x20 on other than the quote and the
  backslash, and of the escapes \<open>\\" \\\\ \\/ \\b \\f \\n \\r \\t\<close> and \<open>\\u\<close> with four
  hexadecimal digits; a number is an optional minus, an integer part without leading zero,
  an optional fraction and an optional exponent.\<close>

definition json_ws :: "string \<Rightarrow> bool" where
  "json_ws w = list_all (\<lambda>c. c = CHR '' '' \<or> c = CHR 0x09 \<or> c = CHR 0x0A \<or> c = CHR 0x0D) w"

fun json_chars :: "string \<Rightarrow> bool" where
  "json_chars [] = True"
| "json_chars (c # cs) =
     (if c = CHR 0x5C then
        (case cs of
           [] \<Rightarrow> False
         | e # r \<Rightarrow>
             if e = CHR 0x22 \<or> e = CHR 0x5C \<or> e = CHR ''/'' \<or> e = CHR ''b'' \<or> e = CHR ''f'' \<or>
                e = CHR ''n'' \<or> e = CHR ''r'' \<or> e = CHR ''t'' then json_chars r
             else if e = CHR ''u'' then
               4 \<le> length r \<and> list_all isxdigit (take 4 r) \<and> json_chars (drop 4 r)
             else False)
      else c \<noteq> CHR 0x22 \<and> 0x20 \<le> uc c \<and> json_chars cs)"

definition json_digits :: "string \<Rightarrow> bool" where
  "json_digits ds = (ds \<noteq> [] \<and> list_all isdigit ds)"

definition json_number :: "string \<Rightarrow> bool" where
  "json_number s =
     (\<exists>m i f e. s = m @ i @ f @ e \<and> (m = [] \<or> m = ''-'') \<and>
        json_digits i \<and> (i = ''0'' \<or> hd i \<noteq> CHR ''0'') \<and>
        (f = [] \<or> (\<exists>ds. f = CHR ''.'' # ds \<and> json_digits ds)) \<and>
        (e = [] \<or> (\<exists>x sg ds. e = x # sg @ ds \<and> (x = CHR ''e'' \<or> x = CHR ''E'') \<and>
                       (sg = [] \<or> sg = ''-'' \<or> sg = ''+'') \<and> json_digits ds)))"

inductive json_value :: "string \<Rightarrow> bool"
  and json_elements :: "string \<Rightarrow> bool"
  and json_members :: "string \<Rightarrow> bool"
where
  json_null: "json_value ''null''"
| json_true: "json_value ''true''"
| json_false: "json_value ''false''"
| json_num: "json_number s \<Longrightarrow> json_value s"
| json_str: "json_chars b \<Longrightarrow> json_value (CHR 0x22 # b @ [CHR 0x22])"
| json_arr_empty: "json_ws w \<Longrightarrow> json_value (CHR ''['' # w @ '']'')"
| json_arr: "json_elements es \<Longrightarrow> json_value (CHR ''['' # es @ '']'')"
| json_obj_empty: "json_ws w \<Longrightarrow> json_value (CHR ''{'' # w @ ''}'')"
| json_obj: "json_members ms \<Longrightarrow> json_value (CHR ''{'' # ms @ ''}'')"
| json_elem_last: "json_ws w1 \<Longrightarrow> json_value v \<Longrightarrow> json_ws w2 \<Longrightarrow> json_elements (w1 @ v @ w2)"
| json_elem_more:
    "json_ws w1 \<Longrightarrow> json_value v \<Longrightarrow> json_ws w2 \<Longrightarrow> json_elements es \<Longrightarrow>
     json_elements (w1 @ v @ w2 @ CHR '','' # es)"
| json_memb_last:
    "json_ws w1 \<Longrightarrow> json_chars k \<Longrightarrow> json_ws w2 \<Longrightarrow> json_ws w3 \<Longrightarrow> json_value v \<Longrightarrow> json_ws w4 \<Longrightarrow>
     json_members (w1 @ CHR 0x22 # k @ CHR 0x22 # w2 @ CHR '':'' # w3 @ v @ w4)"
| json_memb_more:
    "json_ws w1 \<Longrightarrow> json_chars k \<Longrightarrow> json_ws w2 \<Longrightarrow> json_ws w3 \<Longrightarrow> json_value v \<Longrightarrow> json_ws w4 \<Longrightarrow>
     json_members ms \<Longrightarrow>
     json_members (w1 @ CHR 0x22 # k @ CHR 0x22 # w2 @ CHR '':'' # w3 @ v @ w4 @ CHR '','' # ms)"











subsection \<open>The JSON round trip\<close>





text \<open>What follows a value in the serializer's output: nothing, a comma, or a closing
  bracket or brace.\<close>

definition delim :: "string \<Rightarrow> bool" where
  "delim tail = (tail = [] \<or> hd tail = CHR '','' \<or> hd tail = CHR '']'' \<or> hd tail = CHR ''}'')"

lemma delim_not_digit: "list_all isdigit ds \<Longrightarrow> delim tail \<Longrightarrow> takeWhile isdigit (ds @ tail) = ds"
proof (induction ds)
  case Nil
  then show ?case by (cases tail) (auto simp: delim_def isdigit_def uc_def)
next
  case (Cons d ds)
  then show ?case by simp
qed



























text \<open>Reading the serializer's text.\<close>

lemma token_start:
  "\<not> isspace c \<Longrightarrow> peek (c # r) = (c, c # r)"
  "\<not> isspace c \<Longrightarrow> next_c (c # r) = (c, r)"
  "\<not> isspace c \<Longrightarrow> skip_whitespace (c # r) = c # r"
  by (simp_all add: peek_def next_c_def skip_whitespace_def)

lemma punct_not_space:
  "\<not> isspace (CHR '','')" "\<not> isspace (CHR '']'')" "\<not> isspace (CHR ''}'')" "\<not> isspace (CHR '':'')"
  "\<not> isspace (CHR ''['')" "\<not> isspace (CHR ''{'')" "\<not> isspace (CHR ''n'')" "\<not> isspace (CHR ''t'')"
  "\<not> isspace (CHR ''f'')"
  by (simp_all add: isspace_def uc_def)


lemma parse_value_closing: "parse_value H (CHR '']'' # r) = None" "parse_value H (CHR ''}'' # r) = None"
  by (simp_all add: parse_value.simps [of H "CHR '']'' # r"] parse_value.simps [of H "CHR ''}'' # r"]
      token_start punct_not_space isdigit_def uc_def)



























end
